theory Spec2Isabelle
  imports Complex_Main
begin

section \<open>The gesture interpreter of components/GestureController.tsx\<close>

text \<open>
  The component keeps its cross-frame state in React refs and emits gestures by calling
  the \<open>onGesture\<close> callback. The model threads the refs through every step as a record and
  returns the calls of \<open>onGesture\<close>, in order, as a list. JavaScript numbers are modelled as
  real numbers (no rounding, no NaN), \<open>Date.now()\<close> as an integer of milliseconds that the
  caller supplies. Drawing on the canvas is left out: it reads landmarks and writes pixels
  only.
\<close>

subsection \<open>Data\<close>

text \<open>A landmark \<open>{x, y}\<close>; the same shape is stored in \<open>lastLandmark\<close> and \<open>smoothedPos\<close>.\<close>

record point =
  px :: real
  py :: real

type_synonym hand = "point list"

text \<open>\<open>results.landmarks\<close>: absent, or one landmark array per detected hand.\<close>

type_synonym results = "hand list option"

datatype status = IDLE | DETECTING | NOT_FOUND

text \<open>One call of \<open>onGesture(type, data)\<close>; \<open>Null\<close> is \<open>onGesture(null)\<close>.\<close>

datatype gesture =
    Rotate real real
  | Zoom real
  | Reset
  | Pan real real
  | Click real real
  | Null

datatype error = TypeError

text \<open>The refs and the React state of the component (lines 12 to 25).\<close>

record component =
  handLandmarker :: bool
  cameraActive :: bool
  status :: status
  activeGesture :: "string option"
  lastLandmark :: "point option"
  smoothedPos :: point
  lastPinchDist :: "real option"
  isTapped :: bool
  lastClickTime :: int
  lastResetTime :: int

text \<open>
  What a step leaves behind: the refs as they are when the step ends and the gestures it
  emitted. A step that throws keeps the writes it made before the throw (\<open>Inl\<close>).
\<close>

type_synonym outcome = "(error \<times> component \<times> gesture list) + (component \<times> gesture list)"

definition stateOf :: "outcome \<Rightarrow> component" where
  "stateOf r = (case r of Inl (e, c, evs) \<Rightarrow> c | Inr (c, evs) \<Rightarrow> c)"

definition emitted :: "outcome \<Rightarrow> gesture list" where
  "emitted r = (case r of Inl (e, c, evs) \<Rightarrow> evs | Inr (c, evs) \<Rightarrow> evs)"

definition thrown :: "outcome \<Rightarrow> bool" where
  "thrown r = (case r of Inl x \<Rightarrow> True | Inr y \<Rightarrow> False)"

definition initial :: component where
  "initial = \<lparr> handLandmarker = False, cameraActive = False, status = IDLE,
       activeGesture = None, lastLandmark = None, smoothedPos = \<lparr> px = 0, py = 0 \<rparr>,
       lastPinchDist = None, isTapped = False, lastClickTime = 0, lastResetTime = 0 \<rparr>"

subsection \<open>Hyperparameters (lines 28 to 32)\<close>

definition ALPHA :: real where "ALPHA = 0.4"
definition GAIN :: real where "GAIN = 15"
definition DEADZONE :: real where "DEADZONE = 0.003"
definition CLICK_THRESHOLD :: real where "CLICK_THRESHOLD = 0.07"
definition CLICK_RELEASE :: real where "CLICK_RELEASE = 0.10"

subsection \<open>Reading landmarks\<close>

text \<open>\<open>Math.hypot\<close> of two arguments.\<close>

definition hypot :: "real \<Rightarrow> real \<Rightarrow> real" where
  "hypot a b = sqrt (a * a + b * b)"

text \<open>
  \<open>arr[i]\<close>: \<open>undefined\<close> past the end of the array. Reading \<open>.x\<close> of \<open>undefined\<close> throws
  a TypeError, which the callers below write out.
\<close>

definition item :: "'a list \<Rightarrow> nat \<Rightarrow> 'a option" where
  "item xs i = (if i < length xs then Some (xs ! i) else None)"

text \<open>
  \<open>isExtended\<close> (lines 103 to 113), with the hand and its wrist \<open>landmarks[0]\<close>, which the
  source closes over, as the first argument. The unused read of \<open>landmarks[tipIdx - 3]\<close>
  cannot throw and is left out.
\<close>

definition isExtended :: "hand \<Rightarrow> nat \<Rightarrow> nat \<Rightarrow> error + bool" where
  "isExtended landmarks tipIdx dipIdx =
     (case item landmarks tipIdx of
        None \<Rightarrow> Inl TypeError
      | Some tip \<Rightarrow>
         (case item landmarks 0 of
            None \<Rightarrow> Inl TypeError
          | Some wrist \<Rightarrow>
             (case item landmarks dipIdx of
                None \<Rightarrow> Inl TypeError
              | Some dip \<Rightarrow>
                 (let dTip = hypot (px tip - px wrist) (py tip - py wrist);
                      dDip = hypot (px dip - px wrist) (py dip - py wrist)
                  in Inr (dTip > dDip * 1.1)))))"

text \<open>Line 121: the distance between the index tip and the thumb tip.\<close>

definition tapDistance :: "hand \<Rightarrow> error + real" where
  "tapDistance landmarks =
     (case item landmarks 8 of
        None \<Rightarrow> Inl TypeError
      | Some indexTip \<Rightarrow>
         (case item landmarks 4 of
            None \<Rightarrow> Inl TypeError
          | Some thumbTip \<Rightarrow>
              Inr (hypot (px indexTip - px thumbTip) (py indexTip - py thumbTip))))"

text \<open>The values that lines 94 to 121 compute from the first hand.\<close>

record fingers =
  indexTip :: point
  indexOut :: bool
  middleOut :: bool
  ringOut :: bool
  pinkyOut :: bool
  tapDist :: real

definition andThen :: "error + 'a \<Rightarrow> ('a \<Rightarrow> error + 'b) \<Rightarrow> error + 'b" where
  "andThen m f = (case m of Inl e \<Rightarrow> Inl e | Inr v \<Rightarrow> f v)"

definition readHand :: "hand \<Rightarrow> error + fingers" where
  "readHand landmarks =
     andThen (isExtended landmarks 8 7) (\<lambda>io.
     andThen (isExtended landmarks 12 11) (\<lambda>mo.
     andThen (isExtended landmarks 16 15) (\<lambda>ro.
     andThen (isExtended landmarks 20 19) (\<lambda>po.
     andThen (tapDistance landmarks) (\<lambda>d.
       Inr \<lparr> indexTip = landmarks ! 8, indexOut = io, middleOut = mo, ringOut = ro,
             pinkyOut = po, tapDist = d \<rparr>)))))"

definition isPalm :: "fingers \<Rightarrow> bool" where
  "isPalm f = (indexOut f \<and> middleOut f \<and> ringOut f \<and> pinkyOut f)"

subsection \<open>Smoothing (lines 128 to 134)\<close>

definition deadzone :: "real \<Rightarrow> real" where
  "deadzone d = (if \<bar>d\<bar> < DEADZONE then 0 else d)"

definition smooth :: "real \<Rightarrow> real \<Rightarrow> real" where
  "smooth d prev = ALPHA * d + (1 - ALPHA) * prev"

definition smoothing :: "component \<Rightarrow> point \<Rightarrow> point \<Rightarrow> component" where
  "smoothing c tip prev =
     (let dx = deadzone (px tip - px prev);
          dy = deadzone (py tip - py prev)
      in c\<lparr> smoothedPos := \<lparr> px = smooth dx (px (smoothedPos c)),
                              py = smooth dy (py (smoothedPos c)) \<rparr> \<rparr>)"

subsection \<open>Click logic (lines 136 to 146)\<close>

text \<open>\<open>t\<close> is what \<open>Date.now()\<close> returns on line 142.\<close>

definition clickLogic :: "component \<Rightarrow> fingers \<Rightarrow> int \<Rightarrow> component \<times> gesture list" where
  "clickLogic c f t =
     (if tapDist f < CLICK_THRESHOLD then
        (let c1 = c\<lparr> activeGesture := Some ''CLICK'' \<rparr> in
         if \<not> isTapped c1
         then (c1\<lparr> isTapped := True, lastClickTime := t \<rparr>,
               [Click (px (indexTip f)) (py (indexTip f))])
         else (c1, []))
      else if tapDist f > CLICK_RELEASE then (c\<lparr> isTapped := False \<rparr>, [])
      else (c, []))"

subsection \<open>The decision tree (lines 148 to 186)\<close>

text \<open>Lines 161 to 173, entered when exactly two hands are detected.\<close>

definition pinchZoom :: "component \<Rightarrow> hand list \<Rightarrow> outcome" where
  "pinchZoom c hands =
     (let c1 = c\<lparr> activeGesture := Some ''ZOOMING'' \<rparr> in
      case item (hands ! 0) 8 of
        None \<Rightarrow> Inl (TypeError, c1, [])
      | Some h1 \<Rightarrow>
         (case item (hands ! 1) 8 of
            None \<Rightarrow> Inl (TypeError, c1, [])
          | Some h2 \<Rightarrow>
             (let dist = hypot (px h1 - px h2) (py h1 - py h2);
                  evs = (case lastPinchDist c1 of
                           None \<Rightarrow> []
                         | Some lastDist \<Rightarrow>
                            (let delta = (dist - lastDist) * 20
                             in if \<bar>delta\<bar> > 0.005 then [Zoom delta] else []))
              in Inr (c1\<lparr> lastPinchDist := Some dist \<rparr>, evs))))"

text \<open>\<open>t\<close> is what \<open>Date.now()\<close> returns on line 149.\<close>

definition decisionTree :: "component \<Rightarrow> fingers \<Rightarrow> int \<Rightarrow> hand list \<Rightarrow> outcome" where
  "decisionTree c f t hands =
     (let clickLocked = t - lastClickTime c < 400 in
      if isPalm f then
        (if t - lastResetTime c > 2000
         then Inr (c\<lparr> activeGesture := Some ''RESET VIEW'', lastResetTime := t \<rparr>, [Reset])
         else Inr (c, []))
      else if clickLocked then Inr (c, [])
      else if length hands = 2 then pinchZoom c hands
      else if middleOut f \<and> indexOut f \<and> \<not> ringOut f then
        Inr (c\<lparr> activeGesture := Some ''PANNING'' \<rparr>,
             [Pan (- px (smoothedPos c) * GAIN * 1.5) (py (smoothedPos c) * GAIN * 1.5)])
      else if indexOut f \<and> \<not> middleOut f then
        Inr (c\<lparr> activeGesture := Some ''ROTATING'' \<rparr>,
             [Rotate (- px (smoothedPos c) * GAIN) (py (smoothedPos c) * GAIN)])
      else Inr (c, []))"

subsection \<open>One frame (lines 85 to 215)\<close>

text \<open>Lines 124 to 189: the branch on \<open>lastLandmark.current\<close>.\<close>

definition track :: "component \<Rightarrow> fingers \<Rightarrow> int \<Rightarrow> int \<Rightarrow> hand list \<Rightarrow> outcome" where
  "track c f tClick tNow hands =
     (case lastLandmark c of
        None \<Rightarrow> Inr (c\<lparr> lastPinchDist := None \<rparr>, [])
      | Some prev \<Rightarrow>
         (let c1 = smoothing c (indexTip f) prev;
              clicked = clickLogic c1 f tClick
          in case decisionTree (fst clicked) f tNow hands of
               Inl (e, c3, evs) \<Rightarrow> Inl (e, c3, snd clicked @ evs)
             | Inr (c3, evs) \<Rightarrow> Inr (c3, snd clicked @ evs)))"

text \<open>Lines 209 to 212: no hand in the frame.\<close>

definition trackingLost :: "component \<Rightarrow> component" where
  "trackingLost c =
     c\<lparr> status := NOT_FOUND, activeGesture := None, lastLandmark := None,
        lastPinchDist := None \<rparr>"

text \<open>
  The body of \<open>processFrame\<close> for a frame on which the detector ran (the early returns of
  lines 77 to 84 touch no ref and emit nothing). \<open>tClick\<close> and \<open>tNow\<close> are the two readings
  of \<open>Date.now()\<close>, lines 142 and 149.
\<close>

definition processFrame :: "component \<Rightarrow> int \<Rightarrow> int \<Rightarrow> results \<Rightarrow> outcome" where
  "processFrame c tClick tNow res =
     (case res of
        None \<Rightarrow> Inr (trackingLost c, [])
      | Some hands \<Rightarrow>
         if length hands > 0 then
           (let c1 = c\<lparr> status := DETECTING \<rparr>;
                landmarks = hands ! 0
            in case readHand landmarks of
                 Inl e \<Rightarrow> Inl (e, c1, [])
               | Inr f \<Rightarrow>
                  (case track c1 f tClick tNow hands of
                     Inl x \<Rightarrow> Inl x
                   | Inr (c2, evs) \<Rightarrow>
                       Inr (c2\<lparr> lastLandmark :=
                                  Some \<lparr> px = px (indexTip f), py = py (indexTip f) \<rparr> \<rparr>,
                            evs)))
         else Inr (trackingLost c, []))"

subsection \<open>The frame loop\<close>

record frame =
  clickClock :: int
  treeClock :: int
  detection :: results

text \<open>
  The loop of \<open>requestAnimationFrame\<close>: one outcome per frame processed. A frame that throws
  does not reach line 217, so nothing is processed after it.
\<close>

fun run :: "component \<Rightarrow> frame list \<Rightarrow> outcome list" where
  "run c [] = []"
| "run c (f # fs) =
     (let r = processFrame c (clickClock f) (treeClock f) (detection f)
      in r # (if thrown r then [] else run (stateOf r) fs))"

definition final :: "component \<Rightarrow> frame list \<Rightarrow> component" where
  "final c fs = (case run c fs of [] \<Rightarrow> c | r # rs \<Rightarrow> stateOf (last (r # rs)))"

subsection \<open>The capture lifecycle (lines 220 to 249)\<close>

text \<open>What \<open>getUserMedia\<close> does: resolve with a stream, or reject.\<close>

datatype media = Stream | Rejected

text \<open>
  \<open>toggleCamera\<close>, with the start of the stream taken as one step (the \<open>onloadedmetadata\<close>
  callback sets \<open>cameraActive\<close> and schedules the first frame).
\<close>

definition toggleCamera :: "component \<Rightarrow> media \<Rightarrow> component \<times> gesture list" where
  "toggleCamera c m =
     (if \<not> handLandmarker c then (c, [])
      else if cameraActive c then (c\<lparr> cameraActive := False, status := IDLE \<rparr>, [Null])
      else (case m of
              Rejected \<Rightarrow> (c, [])
            | Stream \<Rightarrow> (c\<lparr> cameraActive := True \<rparr>, [])))"

subsection \<open>Observations used to state the properties\<close>

text \<open>The detected hands of a frame, none when \<open>results.landmarks\<close> is absent.\<close>

definition handsOf :: "results \<Rightarrow> hand list" where
  "handsOf res = (case res of None \<Rightarrow> [] | Some hands \<Rightarrow> hands)"

text \<open>Telling the Click gestures from the others.\<close>

fun isClick :: "gesture \<Rightarrow> bool" where
  "isClick (Click a b) = True"
| "isClick e = False"

text \<open>The number of Click gestures in the outcomes of a run.\<close>

definition clicks :: "outcome list \<Rightarrow> nat" where
  "clicks rs = length (filter isClick (concat (map emitted rs)))"

text \<open>
  A frame in which every landmark that \<open>processFrame\<close> reads is present: the first hand has
  its 21 landmarks and, when exactly two hands are detected, the second one has landmark 8.
\<close>

definition complete :: "results \<Rightarrow> bool" where
  "complete res =
     (case res of
        None \<Rightarrow> True
      | Some hands \<Rightarrow>
         (case hands of
            [] \<Rightarrow> True
          | first # others \<Rightarrow>
              21 \<le> length first \<and>
              (case others of [second] \<Rightarrow> 9 \<le> length second | _ \<Rightarrow> True)))"

text \<open>The first hand of the frame is readable and has its four fingers extended.\<close>

definition openPalm :: "results \<Rightarrow> bool" where
  "openPalm res =
     (case handsOf res of
        [] \<Rightarrow> False
      | first # others \<Rightarrow> (case readHand first of Inl e \<Rightarrow> False | Inr f \<Rightarrow> isPalm f))"

text \<open>The thumb-to-index distance of the first hand of a frame.\<close>

definition pinchOf :: "frame \<Rightarrow> error + real" where
  "pinchOf f = tapDistance (case handsOf (detection f) of [] \<Rightarrow> [] | first # others \<Rightarrow> first)"

text \<open>
  The number of steps of a sequence of thumb-to-index distances from at or above
  \<open>CLICK_THRESHOLD\<close> to below it.
\<close>

fun crossings :: "real list \<Rightarrow> nat" where
  "crossings (a # b # ds) =
     (if CLICK_THRESHOLD \<le> a \<and> b < CLICK_THRESHOLD then 1 else 0) + crossings (b # ds)"
| "crossings ds = 0"

text \<open>
  The latch of lines 137 to 146 on its own: the number of clicks it fires on a sequence of
  distances, from a given state of \<open>isTapped\<close>.
\<close>

fun latchClicks :: "bool \<Rightarrow> real list \<Rightarrow> nat" where
  "latchClicks tapped [] = 0"
| "latchClicks tapped (d # ds) =
     (if d < CLICK_THRESHOLD then (if tapped then 0 else 1) + latchClicks True ds
      else if d > CLICK_RELEASE then latchClicks False ds
      else latchClicks tapped ds)"

text \<open>The same latch: the state of \<open>isTapped\<close> after a sequence of distances.\<close>

fun latchAfter :: "bool \<Rightarrow> real list \<Rightarrow> bool" where
  "latchAfter tapped [] = tapped"
| "latchAfter tapped (d # ds) =
     latchAfter (if d < CLICK_THRESHOLD then True
                 else if d > CLICK_RELEASE then False else tapped) ds"

text \<open>The clock readings of the frames of a run that emitted a Reset, in order.\<close>

definition resetTimes :: "component \<Rightarrow> frame list \<Rightarrow> int list" where
  "resetTimes c fs =
     map (\<lambda>p. treeClock (fst p)) (filter (\<lambda>p. Reset \<in> set (emitted (snd p))) (zip fs (run c fs)))"

text \<open>The two coordinates of a point, to speak of either of them.\<close>

datatype axis = Horizontal | Vertical

fun along :: "axis \<Rightarrow> point \<Rightarrow> real" where
  "along Horizontal p = px p"
| "along Vertical p = py p"

text \<open>The index tip of the first hand of a frame.\<close>

definition tipOf :: "frame \<Rightarrow> point option" where
  "tipOf f = (case handsOf (detection f) of [] \<Rightarrow> None | first # others \<Rightarrow> item first 8)"

text \<open>
  A sequence of frames with a constant raw displacement: the index tip of each frame is the
  one of the frame before, \<open>p\<close> for the first, moved by \<open>d\<close>.
\<close>

fun steady :: "point \<Rightarrow> point \<Rightarrow> frame list \<Rightarrow> bool" where
  "steady p d [] = True"
| "steady p d (f # fs) =
     (tipOf f = Some \<lparr> px = px p + px d, py = py p + py d \<rparr> \<and>
      steady \<lparr> px = px p + px d, py = py p + py d \<rparr> d fs)"

text \<open>Stop, then start again with a camera that delivers a stream.\<close>

definition stopThenStart :: "component \<Rightarrow> component" where
  "stopThenStart c = fst (toggleCamera (fst (toggleCamera c Stream)) Stream)"

subsection \<open>Sample frames\<close>

text \<open>
  A hand whose 21 landmarks lie on the line \<open>y = 0.5\<close>: the wrist at \<open>x = 0.1\<close>, the joints
  of the four fingers at \<open>x = 0.5\<close>, and the five tips where the arguments put them. A
  finger is extended when its tip lies beyond \<open>x = 0.54\<close>.
\<close>

definition pt :: "real \<Rightarrow> real \<Rightarrow> point" where
  "pt a b = \<lparr> px = a, py = b \<rparr>"

definition sampleHand :: "real \<Rightarrow> real \<Rightarrow> real \<Rightarrow> real \<Rightarrow> real \<Rightarrow> hand" where
  "sampleHand th ix mi ri pk =
     [pt 0.1 0.5, pt 0.2 0.5, pt 0.2 0.5, pt 0.2 0.5, pt th 0.5,
      pt 0.5 0.5, pt 0.5 0.5, pt 0.5 0.5, pt ix 0.5,
      pt 0.5 0.5, pt 0.5 0.5, pt 0.5 0.5, pt mi 0.5,
      pt 0.5 0.5, pt 0.5 0.5, pt 0.5 0.5, pt ri 0.5,
      pt 0.5 0.5, pt 0.5 0.5, pt 0.5 0.5, pt pk 0.5]"

text \<open>A frame whose two readings of the clock agree.\<close>

definition frameAt :: "int \<Rightarrow> hand list \<Rightarrow> frame" where
  "frameAt t hands = \<lparr> clickClock = t, treeClock = t, detection = Some hands \<rparr>"

text \<open>
  Two hands: a fist with its index tip at \<open>x = 0.5\<close>, and a second hand whose index tip is
  \<open>sep\<close> to the right of it.
\<close>

definition zoomFrame :: "real \<Rightarrow> hand list" where
  "zoomFrame sep = [sampleHand 0.2 0.5 0.5 0.5 0.5, sampleHand 0.2 (0.5 + sep) 0.5 0.5 0.5]"

text \<open>The component after two frames with the index tips 0.08 apart.\<close>

definition zooming :: component where
  "zooming = final initial [frameAt 5000 (zoomFrame 0.08), frameAt 5016 (zoomFrame 0.08)]"

text \<open>
  The component after the detector has loaded, the camera was started and two frames showed
  an open palm with the thumb on the index tip.
\<close>

definition usedSession :: component where
  "usedSession =
     final (fst (toggleCamera (initial\<lparr> handLandmarker := True \<rparr>) Stream))
       [frameAt 5000 [sampleHand 0.6 0.6 0.6 0.6 0.6],
        frameAt 5016 [sampleHand 0.6 0.6 0.6 0.6 0.6]]"

text \<open>
  A pointing hand whose thumb tip is 0.2, 0.05, 0.08, 0.05 and 0.2 away from the index tip:
  one pinch that wavers around the engage threshold before it is released.
\<close>

definition pinchFrames :: "frame list" where
  "pinchFrames =
     [frameAt 5000 [sampleHand 0.8 0.6 0.5 0.5 0.5],
      frameAt 5016 [sampleHand 0.65 0.6 0.5 0.5 0.5],
      frameAt 5032 [sampleHand 0.68 0.6 0.5 0.5 0.5],
      frameAt 5048 [sampleHand 0.65 0.6 0.5 0.5 0.5],
      frameAt 5064 [sampleHand 0.8 0.6 0.5 0.5 0.5]]"

text \<open>A pinch that is already held when the hand is first seen, released and made again.\<close>

definition heldFrames :: "frame list" where
  "heldFrames =
     [frameAt 5000 [sampleHand 0.65 0.6 0.5 0.5 0.5],
      frameAt 5016 [sampleHand 0.65 0.6 0.5 0.5 0.5],
      frameAt 5032 [sampleHand 0.8 0.6 0.5 0.5 0.5],
      frameAt 5048 [sampleHand 0.65 0.6 0.5 0.5 0.5],
      frameAt 5064 [sampleHand 0.8 0.6 0.5 0.5 0.5]]"

text \<open>
  A pinch that is still inside the hysteresis gap when the hand is lost, and the frames
  after the hand has come back: inside the gap, pinched, released.
\<close>

definition lostFrames :: "frame list" where
  "lostFrames =
     [frameAt 5000 [sampleHand 0.8 0.6 0.5 0.5 0.5],
      frameAt 5016 [sampleHand 0.65 0.6 0.5 0.5 0.5],
      frameAt 5032 [sampleHand 0.68 0.6 0.5 0.5 0.5],
      frameAt 5048 []]"

definition regainedFrames :: "frame list" where
  "regainedFrames =
     [frameAt 5064 [sampleHand 0.68 0.6 0.5 0.5 0.5],
      frameAt 5080 [sampleHand 0.65 0.6 0.5 0.5 0.5],
      frameAt 5096 [sampleHand 0.8 0.6 0.5 0.5 0.5]]"

text \<open>An open palm held for four frames.\<close>

definition palmFrames :: "frame list" where
  "palmFrames =
     [frameAt 5000 [sampleHand 0.2 0.6 0.6 0.6 0.6],
      frameAt 5016 [sampleHand 0.2 0.6 0.6 0.6 0.6],
      frameAt 6000 [sampleHand 0.2 0.6 0.6 0.6 0.6],
      frameAt 7100 [sampleHand 0.2 0.6 0.6 0.6 0.6]]"

text \<open>
  A pointing hand with its index tip at \<open>x\<close>, the component after one frame of it at
  \<open>x = 0.6\<close>, and further frames in which the tip moves right by 0.1, or by 0.002, per
  frame.
\<close>

definition pointing :: "real \<Rightarrow> hand" where
  "pointing ix = sampleHand 0.2 ix 0.5 0.5 0.5"

definition acquired :: component where
  "acquired = final initial [frameAt 5000 [pointing 0.6]]"

definition sweepFrames :: "frame list" where
  "sweepFrames = [frameAt 5016 [pointing 0.7], frameAt 5032 [pointing 0.8]]"

definition driftFrames :: "frame list" where
  "driftFrames =
     [frameAt 5016 [pointing 0.602], frameAt 5032 [pointing 0.604], frameAt 5048 [pointing 0.606]]"

section \<open>Basic facts\<close>

lemma hypot_zero_right: "hypot a 0 = \<bar>a\<bar>"
  by (simp add: hypot_def)

lemma item_Nil: "item [] i = None"
  by (simp add: item_def)

lemma item_Cons_0: "item (x # xs) 0 = Some x"
  by (simp add: item_def)

lemma item_Cons_numeral: "item (x # xs) (numeral k) = item xs (pred_numeral k)"
  by (simp add: item_def numeral_eq_Suc)

lemma item_Cons_Suc: "item (x # xs) (Suc n) = item xs n"
  by (simp add: item_def)

lemma item_Some_iff: "(\<exists>v. item xs i = Some v) \<longleftrightarrow> i < length xs"
  by (simp add: item_def)

lemma item_take: "i < n \<Longrightarrow> item (take n xs) i = item xs i"
  by (simp add: item_def)

lemma thrown_Inl: "thrown (Inl x) = True"
  by (simp add: thrown_def)

lemma thrown_Inr: "thrown (Inr y) = False"
  by (simp add: thrown_def)

lemma emitted_Inl: "emitted (Inl (e, c, evs)) = evs"
  by (simp add: emitted_def)

lemma emitted_Inr: "emitted (Inr (c, evs)) = evs"
  by (simp add: emitted_def)

lemma stateOf_Inl: "stateOf (Inl (e, c, evs)) = c"
  by (simp add: stateOf_def)

lemma stateOf_Inr: "stateOf (Inr (c, evs)) = c"
  by (simp add: stateOf_def)

lemmas outcome_simps = thrown_Inl thrown_Inr emitted_Inl emitted_Inr stateOf_Inl stateOf_Inr

text \<open>\<open>isExtended\<close> and \<open>readHand\<close> succeed exactly when the landmarks they read are there.\<close>

lemma isExtended_Inr:
  "tipIdx < length l \<Longrightarrow> dipIdx < length l \<Longrightarrow>
   isExtended l tipIdx dipIdx =
     Inr (hypot (px (l ! tipIdx) - px (l ! 0)) (py (l ! tipIdx) - py (l ! 0))
           > hypot (px (l ! dipIdx) - px (l ! 0)) (py (l ! dipIdx) - py (l ! 0)) * 1.1)"
  by (cases l) (simp_all add: isExtended_def item_def Let_def)

lemma error_is_TypeError: "(e::error) = TypeError"
  by (cases e) simp

lemma isExtended_Inl:
  "\<not> (tipIdx < length l \<and> dipIdx < length l) \<Longrightarrow>
   isExtended l tipIdx dipIdx = Inl TypeError"
  by (auto simp: isExtended_def item_def split: option.splits)

lemma tapDistance_Inr:
  "8 < length l \<Longrightarrow>
   tapDistance l = Inr (hypot (px (l ! 8) - px (l ! 4)) (py (l ! 8) - py (l ! 4)))"
  by (simp add: tapDistance_def item_def)

lemma readHand_complete:
  "21 \<le> length l \<Longrightarrow> \<exists>f. readHand l = Inr f \<and> indexTip f = l ! 8"
  by (simp add: readHand_def andThen_def isExtended_Inr tapDistance_Inr)

lemma readHand_short:
  "length l < 21 \<Longrightarrow> readHand l = Inl TypeError"
  by (simp add: readHand_def andThen_def isExtended_Inl error_is_TypeError split: sum.splits)

lemma readHand_Inr_length: "readHand l = Inr f \<Longrightarrow> 21 \<le> length l"
  using readHand_short [of l] by (cases "length l < 21") auto

lemma readHand_indexTip: "readHand l = Inr f \<Longrightarrow> indexTip f = l ! 8"
  using readHand_complete [of l] readHand_Inr_length [of l f] by auto

lemma readHand_tapDist: "readHand l = Inr f \<Longrightarrow> tapDistance l = Inr (tapDist f)"
  by (auto simp: readHand_def andThen_def split: sum.splits)

lemma isExtended_take:
  "tipIdx < n \<Longrightarrow> dipIdx < n \<Longrightarrow> isExtended (take n l) tipIdx dipIdx = isExtended l tipIdx dipIdx"
  by (simp add: isExtended_def item_take cong: option.case_cong)

lemma tapDistance_take: "8 < n \<Longrightarrow> tapDistance (take n l) = tapDistance l"
  by (simp add: tapDistance_def item_take cong: option.case_cong)

lemma readHand_take: "readHand (take 21 l) = readHand l"
  by (simp add: readHand_def isExtended_take tapDistance_take)

text \<open>Runs and the component they end in.\<close>

lemma run_eq_Nil: "run c fs = [] \<longleftrightarrow> fs = []"
  by (cases fs) (simp_all add: Let_def)

lemma final_Nil: "final c [] = c"
  by (simp add: final_def)

lemma final_Cons:
  "\<not> thrown (processFrame c (clickClock fr) (treeClock fr) (detection fr)) \<Longrightarrow>
   final c (fr # fs) = final (stateOf (processFrame c (clickClock fr) (treeClock fr) (detection fr))) fs"
  by (cases fs) (simp_all add: final_def Let_def run_eq_Nil split: list.splits)

subsection \<open>One frame, case by case\<close>

lemma point_eta: "\<lparr> px = px (p::point), py = py p \<rparr> = p"
  by simp

lemma processFrame_None: "processFrame c t1 t2 None = Inr (trackingLost c, [])"
  by (simp add: processFrame_def)

lemma processFrame_Nil: "processFrame c t1 t2 (Some []) = Inr (trackingLost c, [])"
  by (simp add: processFrame_def)

lemma processFrame_unreadable:
  "hands \<noteq> [] \<Longrightarrow> readHand (hands ! 0) = Inl e \<Longrightarrow>
   processFrame c t1 t2 (Some hands) = Inl (e, c\<lparr> status := DETECTING \<rparr>, [])"
  by (simp add: processFrame_def)

lemma processFrame_first:
  "hands \<noteq> [] \<Longrightarrow> readHand (hands ! 0) = Inr f \<Longrightarrow> lastLandmark c = None \<Longrightarrow>
   processFrame c t1 t2 (Some hands) =
     Inr (c\<lparr> status := DETECTING, lastPinchDist := None, lastLandmark := Some (indexTip f) \<rparr>, [])"
  by (simp add: processFrame_def track_def)

lemma processFrame_tracked:
  "hands \<noteq> [] \<Longrightarrow> readHand (hands ! 0) = Inr f \<Longrightarrow> lastLandmark c = Some prev \<Longrightarrow>
   processFrame c t1 t2 (Some hands) =
     (case decisionTree (fst (clickLogic (smoothing (c\<lparr> status := DETECTING \<rparr>) (indexTip f) prev) f t1))
             f t2 hands of
        Inl (e, c3, evs) \<Rightarrow>
          Inl (e, c3, snd (clickLogic (smoothing (c\<lparr> status := DETECTING \<rparr>) (indexTip f) prev) f t1) @ evs)
      | Inr (c3, evs) \<Rightarrow>
          Inr (c3\<lparr> lastLandmark := Some (indexTip f) \<rparr>,
               snd (clickLogic (smoothing (c\<lparr> status := DETECTING \<rparr>) (indexTip f) prev) f t1) @ evs))"
  by (simp add: processFrame_def track_def Let_def split: sum.splits prod.splits)

subsection \<open>The click logic\<close>

lemma clickLogic_events:
  "snd (clickLogic c f t) =
     (if tapDist f < CLICK_THRESHOLD \<and> \<not> isTapped c
      then [Click (px (indexTip f)) (py (indexTip f))] else [])"
  by (simp add: clickLogic_def Let_def)

lemma clickLogic_isTapped:
  "isTapped (fst (clickLogic c f t)) =
     (if tapDist f < CLICK_THRESHOLD then True
      else if tapDist f > CLICK_RELEASE then False else isTapped c)"
  by (simp add: clickLogic_def Let_def)

lemma clickLogic_lastClickTime:
  "lastClickTime (fst (clickLogic c f t)) =
     (if tapDist f < CLICK_THRESHOLD \<and> \<not> isTapped c then t else lastClickTime c)"
  by (simp add: clickLogic_def Let_def)

lemma clickLogic_keeps:
  "lastResetTime (fst (clickLogic c f t)) = lastResetTime c"
  "lastPinchDist (fst (clickLogic c f t)) = lastPinchDist c"
  "smoothedPos (fst (clickLogic c f t)) = smoothedPos c"
  "lastLandmark (fst (clickLogic c f t)) = lastLandmark c"
  by (simp_all add: clickLogic_def Let_def)

lemma smoothing_keeps:
  "lastResetTime (smoothing c p q) = lastResetTime c"
  "lastClickTime (smoothing c p q) = lastClickTime c"
  "lastPinchDist (smoothing c p q) = lastPinchDist c"
  "isTapped (smoothing c p q) = isTapped c"
  "lastLandmark (smoothing c p q) = lastLandmark c"
  by (simp_all add: smoothing_def Let_def)

subsection \<open>The decision tree\<close>

lemma pinchZoom_emitted:
  "length (emitted (pinchZoom c hands)) \<le> 1"
  "Reset \<notin> set (emitted (pinchZoom c hands))"
  "filter isClick (emitted (pinchZoom c hands)) = []"
  by (simp_all add: pinchZoom_def Let_def outcome_simps split: option.splits)

lemma pinchZoom_keeps:
  "isTapped (stateOf (pinchZoom c hands)) = isTapped c"
  "lastClickTime (stateOf (pinchZoom c hands)) = lastClickTime c"
  "lastResetTime (stateOf (pinchZoom c hands)) = lastResetTime c"
  "lastLandmark (stateOf (pinchZoom c hands)) = lastLandmark c"
  "smoothedPos (stateOf (pinchZoom c hands)) = smoothedPos c"
  by (simp_all add: pinchZoom_def Let_def outcome_simps split: option.splits)

lemma decisionTree_length: "length (emitted (decisionTree c f t hands)) \<le> 1"
  using pinchZoom_emitted(1) [of c hands]
  by (simp add: decisionTree_def Let_def outcome_simps)

lemma decisionTree_no_click: "filter isClick (emitted (decisionTree c f t hands)) = []"
  by (simp add: decisionTree_def Let_def outcome_simps pinchZoom_emitted)

lemma decisionTree_palm:
  "isPalm f \<Longrightarrow>
   decisionTree c f t hands =
     (if 2000 < t - lastResetTime c
      then Inr (c\<lparr> activeGesture := Some ''RESET VIEW'', lastResetTime := t \<rparr>, [Reset])
      else Inr (c, []))"
  by (simp add: decisionTree_def Let_def)

lemma decisionTree_locked:
  "\<not> isPalm f \<Longrightarrow> t - lastClickTime c < 400 \<Longrightarrow> decisionTree c f t hands = Inr (c, [])"
  by (simp add: decisionTree_def Let_def)

lemma decisionTree_Reset:
  "Reset \<in> set (emitted (decisionTree c f t hands)) \<longleftrightarrow> isPalm f \<and> 2000 < t - lastResetTime c"
  by (simp add: decisionTree_def Let_def outcome_simps pinchZoom_emitted)

lemma decisionTree_keeps:
  "isTapped (stateOf (decisionTree c f t hands)) = isTapped c"
  "lastClickTime (stateOf (decisionTree c f t hands)) = lastClickTime c"
  "lastLandmark (stateOf (decisionTree c f t hands)) = lastLandmark c"
  "smoothedPos (stateOf (decisionTree c f t hands)) = smoothedPos c"
  by (simp_all add: decisionTree_def Let_def outcome_simps pinchZoom_keeps)

lemma decisionTree_lastResetTime:
  "lastResetTime (stateOf (decisionTree c f t hands)) =
     (if isPalm f \<and> 2000 < t - lastResetTime c then t else lastResetTime c)"
  by (simp add: decisionTree_def Let_def outcome_simps pinchZoom_keeps)

subsection \<open>A frame with a previous landmark\<close>

lemma tracked_emitted:
  "hands \<noteq> [] \<Longrightarrow> readHand (hands ! 0) = Inr f \<Longrightarrow> lastLandmark c = Some prev \<Longrightarrow>
   emitted (processFrame c t1 t2 (Some hands)) =
     snd (clickLogic (smoothing (c\<lparr> status := DETECTING \<rparr>) (indexTip f) prev) f t1) @
     emitted (decisionTree (fst (clickLogic (smoothing (c\<lparr> status := DETECTING \<rparr>) (indexTip f) prev) f t1))
                f t2 hands)"
  by (simp add: processFrame_tracked emitted_def split: sum.splits prod.splits)

lemma tracked_thrown:
  "hands \<noteq> [] \<Longrightarrow> readHand (hands ! 0) = Inr f \<Longrightarrow> lastLandmark c = Some prev \<Longrightarrow>
   thrown (processFrame c t1 t2 (Some hands)) =
     thrown (decisionTree (fst (clickLogic (smoothing (c\<lparr> status := DETECTING \<rparr>) (indexTip f) prev) f t1))
                f t2 hands)"
  by (simp add: processFrame_tracked thrown_def split: sum.splits prod.splits)

text \<open>Unfolding everything, to run the model on sample frames.\<close>

lemmas eval_simps = hypot_zero_right item_Nil item_Cons_0 item_Cons_Suc
  item_Cons_numeral pt_def sampleHand_def frameAt_def isExtended_def tapDistance_def andThen_def
  readHand_def isPalm_def deadzone_def smooth_def smoothing_def clickLogic_def pinchZoom_def
  decisionTree_def track_def trackingLost_def processFrame_def stateOf_def emitted_def
  thrown_def initial_def final_def ALPHA_def GAIN_def DEADZONE_def CLICK_THRESHOLD_def
  CLICK_RELEASE_def Let_def

section \<open>Properties\<close>

subsection \<open>One gesture per frame\<close>

text \<open>
  C1, as the code has it. The click logic runs before the decision tree and on its own, so
  a frame emits at most one gesture with one exception: a Click may be followed by a Reset
  (open palm with the thumb on the index tip). The second reading of the clock is taken
  less than 400 ms after the first, as within one frame.
\<close>

theorem one_gesture_per_frame:
  assumes "hands \<noteq> []" and "t2 - t1 < 400"
  shows "length (emitted (processFrame c t1 t2 (Some hands))) \<le> 1 \<or>
         emitted (processFrame c t1 t2 (Some hands)) =
           [Click (px (hands ! 0 ! 8)) (py (hands ! 0 ! 8)), Reset]"
proof (cases "readHand (hands ! 0)")
  case (Inl e)
  with assms show ?thesis
    by (simp add: processFrame_unreadable outcome_simps)
next
  case (Inr f)
  note f = this
  show ?thesis
  proof (cases "lastLandmark c")
    case None
    with assms f show ?thesis
      by (simp add: processFrame_first outcome_simps)
  next
    case (Some prev)
    let ?c1 = "smoothing (c\<lparr> status := DETECTING \<rparr>) (indexTip f) prev"
    let ?c2 = "fst (clickLogic ?c1 f t1)"
    have ev: "emitted (processFrame c t1 t2 (Some hands)) =
                snd (clickLogic ?c1 f t1) @ emitted (decisionTree ?c2 f t2 hands)"
      using assms f Some by (rule_tac tracked_emitted) simp_all
    show ?thesis
    proof (cases "tapDist f < CLICK_THRESHOLD \<and> \<not> isTapped ?c1")
      case False
      then have "snd (clickLogic ?c1 f t1) = []"
        by (simp add: clickLogic_events)
      with ev decisionTree_length [of ?c2 f t2 hands] show ?thesis
        by simp
    next
      case True
      then have click: "snd (clickLogic ?c1 f t1) = [Click (px (hands ! 0 ! 8)) (py (hands ! 0 ! 8))]"
        using readHand_indexTip [OF f] by (simp add: clickLogic_events)
      from True have "lastClickTime ?c2 = t1"
        by (simp add: clickLogic_lastClickTime)
      with assms have locked: "t2 - lastClickTime ?c2 < 400"
        by simp
      show ?thesis
      proof (cases "isPalm f")
        case True
        then show ?thesis
          using ev click by (simp add: decisionTree_palm outcome_simps)
      next
        case False
        then show ?thesis
          using ev click locked by (simp add: decisionTree_locked outcome_simps)
      qed
    qed
  qed
qed

theorem one_gesture_per_frame_witness:
  "[sampleHand 0.2 0.6 0.5 0.5 0.5] \<noteq> [] \<and> (5016::int) - 5016 < 400 \<and>
   (length (emitted (processFrame (initial\<lparr> lastLandmark := Some (pt 0.6 0.5) \<rparr>) 5016 5016
       (Some [sampleHand 0.2 0.6 0.5 0.5 0.5]))) \<le> 1 \<or>
    emitted (processFrame (initial\<lparr> lastLandmark := Some (pt 0.6 0.5) \<rparr>) 5016 5016
       (Some [sampleHand 0.2 0.6 0.5 0.5 0.5])) =
      [Click (px ([sampleHand 0.2 0.6 0.5 0.5 0.5] ! 0 ! 8))
             (py ([sampleHand 0.2 0.6 0.5 0.5 0.5] ! 0 ! 8)), Reset])"
  using one_gesture_per_frame [of "[sampleHand 0.2 0.6 0.5 0.5 0.5]" 5016 5016
      "initial\<lparr> lastLandmark := Some (pt 0.6 0.5) \<rparr>"]
  by simp

text \<open>An open palm whose thumb touches the index tip emits two gestures in one frame.\<close>

theorem one_gesture_per_frame_counterexample:
  "map emitted (run initial
      [frameAt 5000 [sampleHand 0.6 0.6 0.6 0.6 0.6],
       frameAt 5016 [sampleHand 0.6 0.6 0.6 0.6 0.6]]) =
     [[], [Click 0.6 0.5, Reset]]"
  by (simp add: eval_simps)

subsection \<open>Frames with missing landmarks\<close>

text \<open>A first hand with fewer than 21 landmarks makes the frame throw before any gesture.\<close>

lemma short_hand_throws:
  "hands \<noteq> [] \<Longrightarrow> length (hands ! 0) < 21 \<Longrightarrow>
   processFrame c t1 t2 (Some hands) = Inl (TypeError, c\<lparr> status := DETECTING \<rparr>, [])"
  by (simp add: processFrame_unreadable readHand_short)

lemma complete_hands:
  "complete (Some hands) \<Longrightarrow> hands \<noteq> [] \<Longrightarrow>
   21 \<le> length (hands ! 0) \<and> (length hands = 2 \<longrightarrow> 9 \<le> length (hands ! 1))"
  by (auto simp: complete_def split: list.splits)

lemma pinchZoom_thrown:
  "8 < length (hands ! 0) \<Longrightarrow> 8 < length (hands ! 1) \<Longrightarrow> \<not> thrown (pinchZoom c hands)"
  by (simp add: pinchZoom_def item_def Let_def outcome_simps)

lemma decisionTree_thrown:
  "8 < length (hands ! 0) \<Longrightarrow> (length hands = 2 \<longrightarrow> 8 < length (hands ! 1)) \<Longrightarrow>
   \<not> thrown (decisionTree c f t hands)"
  by (simp add: decisionTree_def Let_def outcome_simps pinchZoom_thrown)

text \<open>
  C2, as the code has it. A frame in which every landmark read is present never throws;
  neither does a frame without hands.
\<close>

theorem complete_frame_never_throws:
  assumes "complete res"
  shows "\<not> thrown (processFrame c t1 t2 res)"
proof (cases res)
  case None
  then show ?thesis
    by (simp add: processFrame_None outcome_simps)
next
  case (Some hands)
  show ?thesis
  proof (cases "hands = []")
    case True
    with Some show ?thesis
      by (simp add: processFrame_Nil outcome_simps)
  next
    case False
    from complete_hands [of hands] assms Some False
    have len: "21 \<le> length (hands ! 0)" and snd: "length hands = 2 \<longrightarrow> 9 \<le> length (hands ! 1)"
      by simp_all
    from readHand_complete [OF len] obtain f where f: "readHand (hands ! 0) = Inr f"
      by blast
    show ?thesis
    proof (cases "lastLandmark c")
      case None
      with Some False f show ?thesis
        by (simp add: processFrame_first outcome_simps)
    next
      case (Some prev)
      have "\<not> thrown (decisionTree
               (fst (clickLogic (smoothing (c\<lparr> status := DETECTING \<rparr>) (indexTip f) prev) f t1))
               f t2 hands)"
        using len snd by (intro decisionTree_thrown) auto
      with \<open>res = Some hands\<close> False f Some show ?thesis
        by (simp add: tracked_thrown)
    qed
  qed
qed

theorem complete_frame_never_throws_witness:
  "complete (Some [sampleHand 0.2 0.6 0.5 0.5 0.5]) \<and>
   \<not> thrown (processFrame initial 5000 5000 (Some [sampleHand 0.2 0.6 0.5 0.5 0.5]))"
proof -
  have "complete (Some [sampleHand 0.2 0.6 0.5 0.5 0.5])"
    by (simp add: complete_def sampleHand_def)
  with complete_frame_never_throws [of "Some [sampleHand 0.2 0.6 0.5 0.5 0.5]" initial 5000 5000]
  show ?thesis by simp
qed

text \<open>
  A hand that lacks its last landmark: \<open>isExtended\<close> does not answer "not extended" but
  throws, and the TypeError leaves \<open>processFrame\<close>.
\<close>

theorem missing_landmark_counterexample:
  "isExtended (take 20 (sampleHand 0.2 0.6 0.5 0.5 0.5)) 20 19 = Inl TypeError \<and>
   processFrame initial 5000 5000 (Some [take 20 (sampleHand 0.2 0.6 0.5 0.5 0.5)]) =
     Inl (TypeError, initial\<lparr> status := DETECTING \<rparr>, [])"
  by (simp add: eval_simps)

subsection \<open>Loss of tracking\<close>

text \<open>
  C3, as the code has it. A frame without hands clears \<open>lastLandmark\<close>, \<open>lastPinchDist\<close>
  and the gesture label, sets the status, and leaves \<open>smoothedPos\<close> as it is.
\<close>

theorem tracking_lost_keeps_smoothedPos:
  "processFrame c t1 t2 (Some []) =
     Inr (c\<lparr> status := NOT_FOUND, activeGesture := None, lastLandmark := None,
             lastPinchDist := None \<rparr>, []) \<and>
   processFrame c t1 t2 None = processFrame c t1 t2 (Some []) \<and>
   smoothedPos (stateOf (processFrame c t1 t2 (Some []))) = smoothedPos c"
  by (simp add: processFrame_None processFrame_Nil trackingLost_def stateOf_def)

text \<open>
  The smoothed displacement survives a frame without hands, and the first rotation after
  the hand comes back is driven by it although the finger has not moved.
\<close>

theorem tracking_lost_counterexample:
  "smoothedPos (final initial
      [frameAt 5000 [sampleHand 0.2 0.6 0.5 0.5 0.5],
       frameAt 5016 [sampleHand 0.2 0.7 0.5 0.5 0.5],
       frameAt 5032 []]) = \<lparr> px = 0.04, py = 0 \<rparr> \<and>
   map emitted (run initial
      [frameAt 5000 [sampleHand 0.2 0.6 0.5 0.5 0.5],
       frameAt 5016 [sampleHand 0.2 0.7 0.5 0.5 0.5],
       frameAt 5032 [],
       frameAt 5048 [sampleHand 0.2 0.7 0.5 0.5 0.5],
       frameAt 5064 [sampleHand 0.2 0.7 0.5 0.5 0.5]]) =
     [[], [Rotate (- 0.6) 0], [], [], [Rotate (- 0.36) 0]]"
  by (simp add: eval_simps)

subsection \<open>Stop and start\<close>

text \<open>
  C4, as the code has it. \<open>toggleCamera\<close> writes none of the refs: after a stop and a new
  start the camera is active and every ref holds the value it had before the stop.
\<close>

theorem restart_keeps_refs:
  assumes "handLandmarker c" and "cameraActive c"
  shows "cameraActive (stopThenStart c) \<and>
         lastLandmark (stopThenStart c) = lastLandmark c \<and>
         smoothedPos (stopThenStart c) = smoothedPos c \<and>
         lastPinchDist (stopThenStart c) = lastPinchDist c \<and>
         isTapped (stopThenStart c) = isTapped c \<and>
         lastClickTime (stopThenStart c) = lastClickTime c \<and>
         lastResetTime (stopThenStart c) = lastResetTime c"
  using assms by (simp add: stopThenStart_def toggleCamera_def)

theorem restart_keeps_refs_witness:
  "handLandmarker (initial\<lparr> handLandmarker := True, cameraActive := True \<rparr>) \<and>
   cameraActive (initial\<lparr> handLandmarker := True, cameraActive := True \<rparr>) \<and>
   cameraActive (stopThenStart (initial\<lparr> handLandmarker := True, cameraActive := True \<rparr>)) \<and>
   lastLandmark (stopThenStart (initial\<lparr> handLandmarker := True, cameraActive := True \<rparr>)) = None"
  using restart_keeps_refs [of "initial\<lparr> handLandmarker := True, cameraActive := True \<rparr>"]
  by (simp add: initial_def)

text \<open>After use, a stop and a new start, the refs are not the initial ones.\<close>

theorem restart_counterexample:
  "cameraActive (stopThenStart usedSession) \<and>
   lastLandmark (stopThenStart usedSession) = Some (pt 0.6 0.5) \<and>
   isTapped (stopThenStart usedSession) \<and>
   lastClickTime (stopThenStart usedSession) = 5016 \<and>
   lastResetTime (stopThenStart usedSession) = 5016"
  by (simp add: usedSession_def eval_simps stopThenStart_def toggleCamera_def)

subsection \<open>The click latch\<close>

text \<open>The latch never fires more often than the distance steps below the threshold.\<close>

lemma latch_upper: "tapped \<or> CLICK_THRESHOLD \<le> p \<Longrightarrow> latchClicks tapped ds \<le> crossings (p # ds)"
proof (induction ds arbitrary: tapped p)
  case Nil
  show ?case by simp
next
  case (Cons d ds)
  from Cons.IH [of True d] Cons.IH [of False d] Cons.IH [of tapped d] Cons.prems
  show ?case by (auto split: if_splits)
qed

lemma latch_lower:
  "\<not> tapped \<Longrightarrow> CLICK_THRESHOLD \<le> p \<Longrightarrow> 1 \<le> crossings (p # ds) \<Longrightarrow> 1 \<le> latchClicks tapped ds"
proof (induction ds arbitrary: tapped p)
  case Nil
  then show ?case by simp
next
  case (Cons d ds)
  from Cons.IH [of False d] Cons.prems
  show ?case by (auto split: if_splits)
qed

lemma tracked_stateOf:
  assumes "hands \<noteq> []" and "readHand (hands ! 0) = Inr f" and "lastLandmark c = Some prev"
  shows "isTapped (stateOf (processFrame c t1 t2 (Some hands))) =
           isTapped (fst (clickLogic (smoothing (c\<lparr> status := DETECTING \<rparr>) (indexTip f) prev) f t1))"
    and "lastLandmark (stateOf (processFrame c t1 t2 (Some hands))) \<noteq> None"
    and "lastResetTime (stateOf (processFrame c t1 t2 (Some hands))) =
           lastResetTime (stateOf (decisionTree
              (fst (clickLogic (smoothing (c\<lparr> status := DETECTING \<rparr>) (indexTip f) prev) f t1)) f t2 hands))"
proof -
  let ?c2 = "fst (clickLogic (smoothing (c\<lparr> status := DETECTING \<rparr>) (indexTip f) prev) f t1)"
  have keep: "isTapped (stateOf (decisionTree ?c2 f t2 hands)) = isTapped ?c2"
    "lastLandmark (stateOf (decisionTree ?c2 f t2 hands)) = lastLandmark ?c2"
    by (simp_all add: decisionTree_keeps)
  have ll: "lastLandmark ?c2 = Some prev"
    using assms(3) by (simp add: clickLogic_keeps smoothing_keeps)
  show "isTapped (stateOf (processFrame c t1 t2 (Some hands))) = isTapped ?c2"
    using keep(1) unfolding processFrame_tracked [OF assms]
    by (auto simp: stateOf_def split: sum.splits)
  show "lastLandmark (stateOf (processFrame c t1 t2 (Some hands))) \<noteq> None"
    using keep(2) ll unfolding processFrame_tracked [OF assms]
    by (auto simp: stateOf_def split: sum.splits)
  show "lastResetTime (stateOf (processFrame c t1 t2 (Some hands))) =
           lastResetTime (stateOf (decisionTree ?c2 f t2 hands))"
    unfolding processFrame_tracked [OF assms]
    by (auto simp: stateOf_def split: sum.splits)
qed

lemma step_click:
  assumes ne: "hands \<noteq> []" and f: "readHand (hands ! 0) = Inr f"
  shows "length (filter isClick (emitted (processFrame c t1 t2 (Some hands)))) =
           (if lastLandmark c \<noteq> None \<and> tapDist f < CLICK_THRESHOLD \<and> \<not> isTapped c then 1 else 0)"
    and "isTapped (stateOf (processFrame c t1 t2 (Some hands))) =
           (if lastLandmark c = None then isTapped c
            else if tapDist f < CLICK_THRESHOLD then True
            else if tapDist f > CLICK_RELEASE then False else isTapped c)"
    and "lastLandmark (stateOf (processFrame c t1 t2 (Some hands))) \<noteq> None"
proof -
  show "length (filter isClick (emitted (processFrame c t1 t2 (Some hands)))) =
           (if lastLandmark c \<noteq> None \<and> tapDist f < CLICK_THRESHOLD \<and> \<not> isTapped c then 1 else 0)"
  proof (cases "lastLandmark c")
    case None
    then show ?thesis
      by (simp add: processFrame_first [OF ne f] outcome_simps)
  next
    case (Some prev)
    then show ?thesis
      by (simp add: tracked_emitted [OF ne f Some] decisionTree_no_click clickLogic_events
          smoothing_keeps)
  qed
  show "isTapped (stateOf (processFrame c t1 t2 (Some hands))) =
           (if lastLandmark c = None then isTapped c
            else if tapDist f < CLICK_THRESHOLD then True
            else if tapDist f > CLICK_RELEASE then False else isTapped c)"
  proof (cases "lastLandmark c")
    case None
    then show ?thesis
      by (simp add: processFrame_first [OF ne f] outcome_simps)
  next
    case (Some prev)
    then show ?thesis
      by (simp add: tracked_stateOf(1) [OF ne f Some] clickLogic_isTapped smoothing_keeps)
  qed
  show "lastLandmark (stateOf (processFrame c t1 t2 (Some hands))) \<noteq> None"
  proof (cases "lastLandmark c")
    case None
    then show ?thesis
      by (simp add: processFrame_first [OF ne f] outcome_simps)
  next
    case (Some prev)
    then show ?thesis
      by (simp add: tracked_stateOf(2) [OF ne f Some])
  qed
qed

lemma pinchOf_Inr:
  assumes "pinchOf fr = Inr d"
  obtains hands where "detection fr = Some hands" and "hands \<noteq> []"
    and "tapDistance (hands ! 0) = Inr d"
proof -
  from assms have "handsOf (detection fr) \<noteq> []"
    by (auto simp: pinchOf_def tapDistance_def item_def)
  moreover from this have "detection fr = Some (handsOf (detection fr))"
    by (auto simp: handsOf_def split: option.splits)
  moreover from assms \<open>handsOf (detection fr) \<noteq> []\<close>
  have "tapDistance (handsOf (detection fr) ! 0) = Inr d"
    by (cases "handsOf (detection fr)") (simp_all add: pinchOf_def)
  ultimately show thesis
    using that by blast
qed

lemma frame_click:
  assumes d: "pinchOf fr = Inr d"
    and ok: "\<not> thrown (processFrame c (clickClock fr) (treeClock fr) (detection fr))"
  shows "length (filter isClick (emitted (processFrame c (clickClock fr) (treeClock fr) (detection fr)))) =
           (if lastLandmark c \<noteq> None \<and> d < CLICK_THRESHOLD \<and> \<not> isTapped c then 1 else 0)"
    and "isTapped (stateOf (processFrame c (clickClock fr) (treeClock fr) (detection fr))) =
           (if lastLandmark c = None then isTapped c
            else if d < CLICK_THRESHOLD then True
            else if d > CLICK_RELEASE then False else isTapped c)"
    and "lastLandmark (stateOf (processFrame c (clickClock fr) (treeClock fr) (detection fr))) \<noteq> None"
proof -
  from d obtain hands where det: "detection fr = Some hands" and ne: "hands \<noteq> []"
    and td: "tapDistance (hands ! 0) = Inr d"
    by (rule pinchOf_Inr)
  from ok det ne obtain f where f: "readHand (hands ! 0) = Inr f"
    by (cases "readHand (hands ! 0)") (simp_all add: processFrame_unreadable outcome_simps)
  from readHand_tapDist [OF f] td have "tapDist f = d"
    by simp
  with step_click [OF ne f, of c "clickClock fr" "treeClock fr"] det
  show "length (filter isClick (emitted (processFrame c (clickClock fr) (treeClock fr) (detection fr)))) =
           (if lastLandmark c \<noteq> None \<and> d < CLICK_THRESHOLD \<and> \<not> isTapped c then 1 else 0)"
    and "isTapped (stateOf (processFrame c (clickClock fr) (treeClock fr) (detection fr))) =
           (if lastLandmark c = None then isTapped c
            else if d < CLICK_THRESHOLD then True
            else if d > CLICK_RELEASE then False else isTapped c)"
    and "lastLandmark (stateOf (processFrame c (clickClock fr) (treeClock fr) (detection fr))) \<noteq> None"
    by simp_all
qed

lemma clicks_Cons: "clicks (r # rs) = length (filter isClick (emitted r)) + clicks rs"
  by (simp add: clicks_def)

lemma clicks_Nil: "clicks [] = 0"
  by (simp add: clicks_def)

lemma run_clicks:
  "lastLandmark c \<noteq> None \<Longrightarrow> map pinchOf fs = map Inr ds \<Longrightarrow>
   \<forall>r \<in> set (run c fs). \<not> thrown r \<Longrightarrow>
   clicks (run c fs) = latchClicks (isTapped c) ds"
proof (induction fs arbitrary: c ds)
  case Nil
  then show ?case by (simp add: clicks_Nil)
next
  case (Cons fr fs)
  from Cons.prems(2) obtain d ds' where ds: "ds = d # ds'" and d: "pinchOf fr = Inr d"
    and rest: "map pinchOf fs = map Inr ds'"
    by (cases ds) auto
  let ?r = "processFrame c (clickClock fr) (treeClock fr) (detection fr)"
  from Cons.prems(3) have ok: "\<not> thrown ?r" and oks: "\<forall>r \<in> set (run (stateOf ?r) fs). \<not> thrown r"
    by (simp_all add: Let_def)
  note fc = frame_click [OF d ok]
  from Cons.IH [OF fc(3) rest oks]
  have "clicks (run (stateOf ?r) fs) = latchClicks (isTapped (stateOf ?r)) ds'" .
  with ok fc(1,2) Cons.prems(1) show ?case
    by (simp add: Let_def clicks_Cons ds)
qed

text \<open>
  A single step of the distance from at or above the threshold to below it gives one click,
  when the run starts with the latch released and the distance at or above the threshold.
\<close>

lemma one_click_per_crossing:
  assumes latch: "\<not> isTapped c"
    and dists: "map pinchOf fs = map Inr ds"
    and start: "ds \<noteq> [] \<and> CLICK_THRESHOLD \<le> hd ds"
    and once: "crossings ds = 1"
    and ok: "\<forall>r \<in> set (run c fs). \<not> thrown r"
  shows "clicks (run c fs) = 1"
proof -
  from start obtain d ds' where ds: "ds = d # ds'" and d0: "CLICK_THRESHOLD \<le> d"
    by (cases ds) auto
  with dists obtain fr fs' where fs: "fs = fr # fs'" and d: "pinchOf fr = Inr d"
    and rest: "map pinchOf fs' = map Inr ds'"
    by (cases fs) auto
  let ?r = "processFrame c (clickClock fr) (treeClock fr) (detection fr)"
  from ok fs have ok0: "\<not> thrown ?r" and oks: "\<forall>r \<in> set (run (stateOf ?r) fs'). \<not> thrown r"
    by (simp_all add: Let_def)
  note fc = frame_click [OF d ok0]
  from fc(1) d0 have none: "length (filter isClick (emitted ?r)) = 0"
    by simp
  from fc(2) d0 latch have off: "\<not> isTapped (stateOf ?r)"
    by (simp split: if_splits)
  from run_clicks [OF fc(3) rest oks] off
  have "clicks (run (stateOf ?r) fs') = latchClicks False ds'"
    by simp
  moreover from latch_upper [of False d ds'] d0 once ds have "latchClicks False ds' \<le> 1"
    by simp
  moreover from latch_lower [of False d ds'] d0 once ds have "1 \<le> latchClicks False ds'"
    by simp
  ultimately have "clicks (run (stateOf ?r) fs') = 1"
    by simp
  with none ok0 fs show ?thesis
    by (simp add: Let_def clicks_Cons)
qed

text \<open>The latch and the run agree on the state of \<open>isTapped\<close> at the end.\<close>

lemma run_latch:
  "lastLandmark c \<noteq> None \<Longrightarrow> map pinchOf fs = map Inr ds \<Longrightarrow>
   \<forall>r \<in> set (run c fs). \<not> thrown r \<Longrightarrow>
   isTapped (final c fs) = latchAfter (isTapped c) ds"
proof (induction fs arbitrary: c ds)
  case Nil
  then show ?case by (simp add: final_Nil)
next
  case (Cons fr fs)
  from Cons.prems(2) obtain d ds' where ds: "ds = d # ds'" and d: "pinchOf fr = Inr d"
    and rest: "map pinchOf fs = map Inr ds'"
    by (cases ds) auto
  let ?r = "processFrame c (clickClock fr) (treeClock fr) (detection fr)"
  from Cons.prems(3) have ok: "\<not> thrown ?r" and oks: "\<forall>r \<in> set (run (stateOf ?r) fs). \<not> thrown r"
    by (simp_all add: Let_def)
  note fc = frame_click [OF d ok]
  from Cons.IH [OF fc(3) rest oks]
  have "isTapped (final (stateOf ?r) fs) = latchAfter (isTapped (stateOf ?r)) ds'" .
  with fc(2) Cons.prems(1) show ?case
    by (simp add: final_Cons [OF ok] ds)
qed

text \<open>
  The latch over a stretch at or above the engage threshold, and over one that stays at or
  below the release threshold.
\<close>

lemma latch_above:
  "list_all (\<lambda>d. 0.07 \<le> d) xs \<Longrightarrow>
   latchClicks False (xs @ ys) = latchClicks False ys \<and>
   latchAfter False (xs @ ys) = latchAfter False ys"
  by (induction xs) (simp_all add: CLICK_THRESHOLD_def)

lemma latch_held:
  "list_all (\<lambda>d. d \<le> 0.10) xs \<Longrightarrow>
   latchClicks True (xs @ ys) = latchClicks True ys \<and>
   latchAfter True (xs @ ys) = latchAfter True ys"
  by (induction xs) (simp_all add: CLICK_THRESHOLD_def CLICK_RELEASE_def)

lemma latch_tail_clicks:
  "list_all (\<lambda>d. 0.07 \<le> d) xs \<Longrightarrow> latchClicks tapped xs = 0"
  by (induction xs arbitrary: tapped) (simp_all add: CLICK_THRESHOLD_def)

lemma latch_tail_released:
  "list_all (\<lambda>d. 0.07 \<le> d) xs \<Longrightarrow> latchAfter False xs = False"
  by (induction xs) (simp_all add: CLICK_THRESHOLD_def)

lemma latch_tail_after:
  "list_all (\<lambda>d. 0.07 \<le> d) xs \<Longrightarrow> latchAfter True xs = (\<not> list_ex (\<lambda>d. 0.10 < d) xs)"
proof (induction xs)
  case Nil
  show ?case by simp
next
  case (Cons a xs)
  from Cons.prems have a: "0.07 \<le> a" and tail: "list_all (\<lambda>d. 0.07 \<le> d) xs"
    by simp_all
  from a Cons.IH [OF tail] latch_tail_released [OF tail] show ?case
    by (simp add: CLICK_THRESHOLD_def CLICK_RELEASE_def)
qed

lemma latch_episode:
  assumes pre: "list_all (\<lambda>d. 0.07 \<le> d) pre"
    and mid: "mid \<noteq> [] \<and> hd mid < 0.07 \<and> list_all (\<lambda>d. d \<le> 0.10) mid"
    and post: "list_all (\<lambda>d. 0.07 \<le> d) post"
  shows "latchClicks False (pre @ mid @ post) = 1"
    and "latchAfter False (pre @ mid @ post) = (\<not> list_ex (\<lambda>d. 0.10 < d) post)"
proof -
  from mid obtain m ms where ms: "mid = m # ms" and m: "m < 0.07" and held: "list_all (\<lambda>d. d \<le> 0.10) ms"
    by (cases mid) auto
  have "latchClicks False (pre @ mid @ post) = latchClicks False (mid @ post)"
    using latch_above [OF pre] by simp
  also have "\<dots> = 1 + latchClicks True (ms @ post)"
    using m by (simp add: ms CLICK_THRESHOLD_def)
  also have "\<dots> = 1 + latchClicks True post"
    using latch_held [OF held] by simp
  also have "\<dots> = 1"
    using latch_tail_clicks [OF post] by simp
  finally show "latchClicks False (pre @ mid @ post) = 1" .
  have "latchAfter False (pre @ mid @ post) = latchAfter False (mid @ post)"
    using latch_above [OF pre] by simp
  also have "\<dots> = latchAfter True (ms @ post)"
    using m by (simp add: ms CLICK_THRESHOLD_def)
  also have "\<dots> = latchAfter True post"
    using latch_held [OF held] by simp
  also have "\<dots> = (\<not> list_ex (\<lambda>d. 0.10 < d) post)"
    using latch_tail_after [OF post] by simp
  finally show "latchAfter False (pre @ mid @ post) = (\<not> list_ex (\<lambda>d. 0.10 < d) post)" .
qed

text \<open>
  C5, as the code has it. A run of frames with a detected hand, none of which throws, that
  starts with the latch released and the thumb-to-index distance at or above 0.07: when
  the distance then drops below 0.07, stays at or below 0.10 for a stretch, in which it may
  cross 0.07 again any number of times, and from then on stays at or above 0.07, exactly
  one Click is emitted over the whole run, and the latch is released at the end exactly
  when the distance has exceeded 0.10 after the stretch.
\<close>

theorem one_click_per_pinch:
  assumes latch: "\<not> isTapped c"
    and dists: "map pinchOf fs = map Inr (pre @ mid @ post)"
    and pre: "pre \<noteq> [] \<and> list_all (\<lambda>d. 0.07 \<le> d) pre"
    and mid: "mid \<noteq> [] \<and> hd mid < 0.07 \<and> list_all (\<lambda>d. d \<le> 0.10) mid"
    and post: "list_all (\<lambda>d. 0.07 \<le> d) post"
    and ok: "\<forall>r \<in> set (run c fs). \<not> thrown r"
  shows "clicks (run c fs) = 1 \<and>
         isTapped (final c fs) = (\<not> list_ex (\<lambda>d. 0.10 < d) post)"
proof -
  from pre obtain d pre' where p: "pre = d # pre'" and d0: "0.07 \<le> d"
    and above: "list_all (\<lambda>d. 0.07 \<le> d) pre'"
    by (cases pre) auto
  with dists obtain fr fs' where fs: "fs = fr # fs'" and d: "pinchOf fr = Inr d"
    and rest: "map pinchOf fs' = map Inr (pre' @ mid @ post)"
    by (cases fs) auto
  let ?r = "processFrame c (clickClock fr) (treeClock fr) (detection fr)"
  from ok fs have ok0: "\<not> thrown ?r" and oks: "\<forall>r \<in> set (run (stateOf ?r) fs'). \<not> thrown r"
    by (simp_all add: Let_def)
  note fc = frame_click [OF d ok0]
  from fc(1) d0 have none: "length (filter isClick (emitted ?r)) = 0"
    by (simp add: CLICK_THRESHOLD_def)
  from fc(2) d0 latch have off: "\<not> isTapped (stateOf ?r)"
    by (simp add: CLICK_THRESHOLD_def split: if_splits)
  from run_clicks [OF fc(3) rest oks] off latch_episode(1) [OF above mid post]
  have "clicks (run (stateOf ?r) fs') = 1"
    by simp
  with none ok0 fs have one: "clicks (run c fs) = 1"
    by (simp add: Let_def clicks_Cons)
  from run_latch [OF fc(3) rest oks] off latch_episode(2) [OF above mid post]
  have "isTapped (final (stateOf ?r) fs') = (\<not> list_ex (\<lambda>d. 0.10 < d) post)"
    by simp
  with fs have "isTapped (final c fs) = (\<not> list_ex (\<lambda>d. 0.10 < d) post)"
    by (simp add: final_Cons [OF ok0])
  with one show ?thesis
    by simp
qed

theorem one_click_per_pinch_witness:
  "\<not> isTapped initial \<and>
   map pinchOf pinchFrames = map Inr ([0.2] @ [0.05, 0.08, 0.05] @ [0.2]) \<and>
   list_all (\<lambda>d. 0.07 \<le> d) [0.2 :: real] \<and>
   hd [0.05, 0.08, 0.05 :: real] < 0.07 \<and>
   list_all (\<lambda>d. d \<le> 0.10) [0.05, 0.08, 0.05 :: real] \<and>
   map thrown (run initial pinchFrames) = [False, False, False, False, False] \<and>
   clicks (run initial pinchFrames) = 1 \<and>
   \<not> isTapped (final initial pinchFrames)"
proof -
  have latch: "\<not> isTapped initial"
    by (simp add: initial_def)
  have dists: "map pinchOf pinchFrames = map Inr ([0.2] @ [0.05, 0.08, 0.05] @ [0.2])"
    by (simp add: pinchFrames_def pinchOf_def handsOf_def eval_simps)
  have pre: "[0.2 :: real] \<noteq> [] \<and> list_all (\<lambda>d. 0.07 \<le> d) [0.2 :: real]"
    by simp
  have mid: "[0.05, 0.08, 0.05 :: real] \<noteq> [] \<and> hd [0.05, 0.08, 0.05 :: real] < 0.07 \<and>
             list_all (\<lambda>d. d \<le> 0.10) [0.05, 0.08, 0.05 :: real]"
    by simp
  have post: "list_all (\<lambda>d. 0.07 \<le> d) [0.2 :: real]"
    by simp
  have run: "map thrown (run initial pinchFrames) = [False, False, False, False, False]"
    by (simp add: pinchFrames_def eval_simps)
  have "thrown r \<in> set (map thrown (run initial pinchFrames))"
    if "r \<in> set (run initial pinchFrames)" for r
    using that by simp
  then have ok: "\<forall>r \<in> set (run initial pinchFrames). \<not> thrown r"
    unfolding run by auto
  from one_click_per_pinch [OF latch dists pre mid post ok] latch dists pre mid run
  show ?thesis by simp
qed

text \<open>
  Without the two conditions on the start the count is not one. From the initial state, a
  pinch held from the first frame on and made once more steps below the threshold once and
  clicks twice; and after a loss of tracking inside the hysteresis gap, which leaves the
  latch engaged, a run that steps below the threshold once and is released does not click.
\<close>

theorem one_click_per_pinch_counterexample:
  "map pinchOf heldFrames = map Inr [0.05, 0.05, 0.2, 0.05, 0.2] \<and>
   crossings [0.05, 0.05, 0.2, 0.05, 0.2] = 1 \<and>
   map thrown (run initial heldFrames) = [False, False, False, False, False] \<and>
   clicks (run initial heldFrames) = 2 \<and>
   map pinchOf regainedFrames = map Inr [0.08, 0.05, 0.2] \<and>
   crossings [0.08, 0.05, 0.2] = 1 \<and>
   map thrown (run (final initial lostFrames) regainedFrames) = [False, False, False] \<and>
   clicks (run (final initial lostFrames) regainedFrames) = 0"
  by (simp add: heldFrames_def lostFrames_def regainedFrames_def pinchOf_def handsOf_def
      clicks_def eval_simps)

subsection \<open>The cooldown of Reset\<close>

text \<open>A frame emits a Reset only if it shows an open palm after the cooldown.\<close>

lemma clickLogic_no_Reset: "Reset \<notin> set (snd (clickLogic c f t))"
  by (simp add: clickLogic_events)

lemma clickLogic_only_clicks: "filter (\<lambda>e. \<not> isClick e) (snd (clickLogic c f t)) = []"
  by (simp add: clickLogic_events)

lemma tracked_lastResetTime:
  assumes "hands \<noteq> []" and "readHand (hands ! 0) = Inr f" and "lastLandmark c = Some prev"
  shows "lastResetTime (stateOf (processFrame c t1 t2 (Some hands))) =
           (if isPalm f \<and> 2000 < t2 - lastResetTime c then t2 else lastResetTime c)"
proof -
  let ?c2 = "fst (clickLogic (smoothing (c\<lparr> status := DETECTING \<rparr>) (indexTip f) prev) f t1)"
  have "lastResetTime ?c2 = lastResetTime c"
    by (simp add: clickLogic_keeps smoothing_keeps)
  moreover have "lastResetTime (stateOf (processFrame c t1 t2 (Some hands))) =
      lastResetTime (stateOf (decisionTree ?c2 f t2 hands))"
    unfolding processFrame_tracked [OF assms]
    by (auto simp: stateOf_def split: sum.splits)
  ultimately show ?thesis
    by (simp add: decisionTree_lastResetTime)
qed

lemma tracked_Reset:
  assumes "hands \<noteq> []" and "readHand (hands ! 0) = Inr f" and "lastLandmark c = Some prev"
  shows "Reset \<in> set (emitted (processFrame c t1 t2 (Some hands))) \<longleftrightarrow>
           isPalm f \<and> 2000 < t2 - lastResetTime c"
  by (simp add: tracked_emitted [OF assms] clickLogic_no_Reset decisionTree_Reset
      clickLogic_keeps smoothing_keeps)

lemma openPalm_Some:
  "hands \<noteq> [] \<Longrightarrow> readHand (hands ! 0) = Inr f \<Longrightarrow> openPalm (Some hands) = isPalm f"
  by (cases hands) (simp_all add: openPalm_def handsOf_def)

lemma openPalm_hands:
  assumes "openPalm res"
  obtains hands f where "res = Some hands" and "hands \<noteq> []" and "readHand (hands ! 0) = Inr f"
    and "isPalm f"
proof -
  from assms have ne: "handsOf res \<noteq> []"
    by (auto simp: openPalm_def)
  then have res: "res = Some (handsOf res)"
    by (auto simp: handsOf_def split: option.splits)
  from assms ne obtain f where "readHand (handsOf res ! 0) = Inr f" and "isPalm f"
    by (cases "handsOf res") (auto simp: openPalm_def split: sum.splits)
  with ne res that show thesis
    by blast
qed

lemma step_Reset:
  "Reset \<in> set (emitted (processFrame c t1 t2 res)) \<Longrightarrow>
   2000 < t2 - lastResetTime c \<and> openPalm res"
proof (cases res)
  case None
  assume "Reset \<in> set (emitted (processFrame c t1 t2 res))"
  with None show ?thesis
    by (simp add: processFrame_None outcome_simps)
next
  case (Some hands)
  assume r: "Reset \<in> set (emitted (processFrame c t1 t2 res))"
  with Some have ne: "hands \<noteq> []"
    by (auto simp: processFrame_Nil outcome_simps)
  from r Some ne obtain f where f: "readHand (hands ! 0) = Inr f"
    by (cases "readHand (hands ! 0)") (simp_all add: processFrame_unreadable outcome_simps)
  from r Some ne f obtain prev where prev: "lastLandmark c = Some prev"
    by (cases "lastLandmark c") (simp_all add: processFrame_first outcome_simps)
  from r Some tracked_Reset [OF ne f prev, of t1 t2] openPalm_Some [OF ne f]
  show ?thesis
    by simp
qed

lemma step_lastResetTime:
  "lastResetTime (stateOf (processFrame c t1 t2 res)) =
     (if Reset \<in> set (emitted (processFrame c t1 t2 res)) then t2 else lastResetTime c)"
proof (cases res)
  case None
  then show ?thesis
    by (simp add: processFrame_None outcome_simps trackingLost_def)
next
  case (Some hands)
  show ?thesis
  proof (cases "hands = []")
    case True
    with Some show ?thesis
      by (simp add: processFrame_Nil outcome_simps trackingLost_def)
  next
    case False
    show ?thesis
    proof (cases "readHand (hands ! 0)")
      case (Inl e)
      with Some False show ?thesis
        by (simp add: processFrame_unreadable outcome_simps)
    next
      case (Inr f)
      show ?thesis
      proof (cases "lastLandmark c")
        case None
        with Some False Inr show ?thesis
          by (simp add: processFrame_first outcome_simps)
      next
        case (Some prev)
        with \<open>res = Some hands\<close> tracked_Reset [OF False Inr Some, of t1 t2]
          tracked_lastResetTime [OF False Inr Some, of t1 t2]
        show ?thesis
          by simp
      qed
    qed
  qed
qed

lemma palm_suppressed:
  assumes palm: "openPalm res" and early: "t2 - lastResetTime c \<le> 2000"
  shows "filter (\<lambda>e. \<not> isClick e) (emitted (processFrame c t1 t2 res)) = []"
proof -
  from palm obtain hands f where res: "res = Some hands" and ne: "hands \<noteq> []"
    and f: "readHand (hands ! 0) = Inr f" and p: "isPalm f"
    by (rule openPalm_hands)
  show ?thesis
  proof (cases "lastLandmark c")
    case None
    with res ne f show ?thesis
      by (simp add: processFrame_first outcome_simps)
  next
    case (Some prev)
    with res p early show ?thesis
      by (simp add: tracked_emitted [OF ne f Some] clickLogic_only_clicks decisionTree_palm
          clickLogic_keeps smoothing_keeps outcome_simps)
  qed
qed

lemma resetTimes_Nil: "resetTimes c [] = []"
  by (simp add: resetTimes_def)

lemma resetTimes_Cons:
  "resetTimes c (fr # fs) =
     (if Reset \<in> set (emitted (processFrame c (clickClock fr) (treeClock fr) (detection fr)))
      then [treeClock fr] else []) @
     (if thrown (processFrame c (clickClock fr) (treeClock fr) (detection fr)) then []
      else resetTimes (stateOf (processFrame c (clickClock fr) (treeClock fr) (detection fr))) fs)"
  by (simp add: resetTimes_def Let_def)

lemma resets_spaced:
  "sorted_wrt (\<lambda>a b. 2000 < b - a) (lastResetTime c # resetTimes c fs)"
proof (induction fs arbitrary: c)
  case Nil
  show ?case by (simp add: resetTimes_Nil)
next
  case (Cons fr fs)
  let ?r = "processFrame c (clickClock fr) (treeClock fr) (detection fr)"
  note IH = Cons.IH [of "stateOf ?r"]
  show ?case
  proof (cases "Reset \<in> set (emitted ?r)")
    case False
    with IH step_lastResetTime [of c "clickClock fr" "treeClock fr" "detection fr"]
    show ?thesis
      by (simp add: resetTimes_Cons)
  next
    case True
    then have gap: "2000 < treeClock fr - lastResetTime c"
      using step_Reset by blast
    from True have last: "lastResetTime (stateOf ?r) = treeClock fr"
      by (simp add: step_lastResetTime)
    from IH last have later: "\<forall>t \<in> set (resetTimes (stateOf ?r) fs). 2000 < t - treeClock fr"
      and sorted: "sorted_wrt (\<lambda>a b. 2000 < b - a) (resetTimes (stateOf ?r) fs)"
      by simp_all
    from later gap have "\<forall>t \<in> set (resetTimes (stateOf ?r) fs). 2000 < t - lastResetTime c"
      by auto
    with True gap later sorted show ?thesis
      by (simp add: resetTimes_Cons)
  qed
qed

text \<open>
  C6, as the code has it. Any two Resets of a run, and the first one and the Reset before
  the run, are more than 2000 ms apart. A Reset is emitted only by a frame that itself
  shows an open palm more than 2000 ms after the last Reset; an open palm that comes
  earlier emits no Reset, Zoom, Pan or Rotate and leaves \<open>lastResetTime\<close> alone. It may
  still emit the Click of the click logic.
\<close>

theorem reset_cooldown:
  "sorted_wrt (\<lambda>a b. 2000 < b - a) (lastResetTime c # resetTimes c fs) \<and>
   (Reset \<in> set (emitted (processFrame c t1 t2 res)) \<longrightarrow>
      2000 < t2 - lastResetTime c \<and> openPalm res) \<and>
   (openPalm res \<and> t2 - lastResetTime c \<le> 2000 \<longrightarrow>
      filter (\<lambda>e. \<not> isClick e) (emitted (processFrame c t1 t2 res)) = [] \<and>
      lastResetTime (stateOf (processFrame c t1 t2 res)) = lastResetTime c)"
proof -
  have "lastResetTime (stateOf (processFrame c t1 t2 res)) = lastResetTime c"
    if "t2 - lastResetTime c \<le> 2000"
    using that step_Reset [of c t1 t2 res] by (auto simp: step_lastResetTime)
  with resets_spaced [of c fs] step_Reset [of c t1 t2 res] palm_suppressed [of res t2 c t1]
  show ?thesis
    by blast
qed

theorem reset_cooldown_witness:
  "sorted_wrt (\<lambda>a b. 2000 < b - a) (lastResetTime initial # resetTimes initial palmFrames) \<and>
   resetTimes initial palmFrames = [5016, 7100] \<and>
   Reset \<in> set (emitted (processFrame (final initial (take 1 palmFrames)) 5016 5016
                     (Some [sampleHand 0.2 0.6 0.6 0.6 0.6]))) \<and>
   2000 < 5016 - lastResetTime (final initial (take 1 palmFrames)) \<and>
   openPalm (Some [sampleHand 0.2 0.6 0.6 0.6 0.6]) \<and>
   6000 - lastResetTime (final initial (take 2 palmFrames)) \<le> 2000 \<and>
   emitted (processFrame (final initial (take 2 palmFrames)) 6000 6000
              (Some [sampleHand 0.2 0.6 0.6 0.6 0.6])) = [] \<and>
   lastResetTime (stateOf (processFrame (final initial (take 2 palmFrames)) 6000 6000
              (Some [sampleHand 0.2 0.6 0.6 0.6 0.6]))) = 5016"
proof -
  let ?palm = "Some [sampleHand 0.2 0.6 0.6 0.6 0.6]"
  have times: "resetTimes initial palmFrames = [5016, 7100]"
    by (simp add: resetTimes_def palmFrames_def eval_simps)
  have fired: "Reset \<in> set (emitted (processFrame (final initial (take 1 palmFrames)) 5016 5016 ?palm))"
    by (simp add: palmFrames_def eval_simps)
  have palm: "openPalm ?palm"
    by (simp add: openPalm_def handsOf_def eval_simps)
  have last: "lastResetTime (final initial (take 2 palmFrames)) = 5016"
    by (simp add: palmFrames_def eval_simps)
  have quiet: "emitted (processFrame (final initial (take 2 palmFrames)) 6000 6000 ?palm) = []"
    by (simp add: palmFrames_def eval_simps)
  from reset_cooldown [of initial palmFrames 5016 5016 ?palm]
    reset_cooldown [of "final initial (take 1 palmFrames)" "[]" 5016 5016 ?palm]
    reset_cooldown [of "final initial (take 2 palmFrames)" "[]" 6000 6000 ?palm]
    times fired palm last quiet
  show ?thesis by simp
qed

text \<open>An open palm with the thumb on the index tip, 484 ms after a Reset, emits a Click.\<close>

theorem reset_cooldown_counterexample:
  "openPalm (Some [sampleHand 0.6 0.6 0.6 0.6 0.6]) \<and>
   map emitted (run initial
      [frameAt 5000 [sampleHand 0.2 0.6 0.6 0.6 0.6],
       frameAt 5016 [sampleHand 0.2 0.6 0.6 0.6 0.6],
       frameAt 5500 [sampleHand 0.6 0.6 0.6 0.6 0.6]]) =
     [[], [Reset], [Click 0.6 0.5]]"
  by (simp add: openPalm_def handsOf_def eval_simps)

subsection \<open>Zoom with two hands\<close>

text \<open>
  C7. On a frame that reaches the branch of two hands (no open palm, no click lock) with a
  previous pinch distance, \<open>delta\<close> is the change of the distance between the two index tips
  times 20; \<open>Zoom delta\<close> is emitted exactly when \<open>\<bar>delta\<bar>\<close> exceeds 0.005, after the Click
  of this frame if there is one, and \<open>lastPinchDist\<close> becomes the new distance in both
  cases.
\<close>

theorem pinch_zoom_delta:
  assumes two: "length hands = 2"
    and f: "readHand (hands ! 0) = Inr f"
    and h2: "item (hands ! 1) 8 = Some h2"
    and prev: "lastLandmark c = Some prev"
    and lastDist: "lastPinchDist c = Some lastDist"
    and palm: "\<not> isPalm f"
    and lock: "\<not> t2 - (if tapDist f < CLICK_THRESHOLD \<and> \<not> isTapped c then t1 else lastClickTime c) < 400"
  shows "\<not> thrown (processFrame c t1 t2 (Some hands)) \<and>
         emitted (processFrame c t1 t2 (Some hands)) =
           (if tapDist f < CLICK_THRESHOLD \<and> \<not> isTapped c
            then [Click (px (indexTip f)) (py (indexTip f))] else []) @
           (if 0.005 < \<bar>(hypot (px (indexTip f) - px h2) (py (indexTip f) - py h2) - lastDist) * 20\<bar>
            then [Zoom ((hypot (px (indexTip f) - px h2) (py (indexTip f) - py h2) - lastDist) * 20)]
            else []) \<and>
         lastPinchDist (stateOf (processFrame c t1 t2 (Some hands))) =
           Some (hypot (px (indexTip f) - px h2) (py (indexTip f) - py h2))"
proof -
  let ?c1 = "smoothing (c\<lparr> status := DETECTING \<rparr>) (indexTip f) prev"
  let ?c2 = "fst (clickLogic ?c1 f t1)"
  from two have ne: "hands \<noteq> []" by auto
  have h1: "item (hands ! 0) 8 = Some (indexTip f)"
    using readHand_Inr_length [OF f] readHand_indexTip [OF f] by (simp add: item_def)
  have lp: "lastPinchDist ?c2 = Some lastDist"
    using lastDist by (simp add: clickLogic_keeps smoothing_keeps)
  have "lastClickTime ?c2 =
          (if tapDist f < CLICK_THRESHOLD \<and> \<not> isTapped c then t1 else lastClickTime c)"
    by (simp add: clickLogic_lastClickTime smoothing_keeps)
  with lock have unlocked: "\<not> t2 - lastClickTime ?c2 < 400"
    by simp
  have tree: "decisionTree ?c2 f t2 hands = pinchZoom ?c2 hands"
    using palm unlocked two by (simp add: decisionTree_def Let_def)
  have zoom: "pinchZoom ?c2 hands =
      Inr (?c2\<lparr> activeGesture := Some ''ZOOMING'',
                lastPinchDist := Some (hypot (px (indexTip f) - px h2) (py (indexTip f) - py h2)) \<rparr>,
           if 0.005 < \<bar>(hypot (px (indexTip f) - px h2) (py (indexTip f) - py h2) - lastDist) * 20\<bar>
           then [Zoom ((hypot (px (indexTip f) - px h2) (py (indexTip f) - py h2) - lastDist) * 20)]
           else [])"
    using h1 h2 lp by (simp add: pinchZoom_def Let_def)
  have clicks: "snd (clickLogic ?c1 f t1) =
      (if tapDist f < CLICK_THRESHOLD \<and> \<not> isTapped c
       then [Click (px (indexTip f)) (py (indexTip f))] else [])"
    by (simp add: clickLogic_events smoothing_keeps)
  show ?thesis
    unfolding processFrame_tracked [OF ne f prev] tree zoom clicks
    by (simp add: outcome_simps)
qed

text \<open>Separations of 0.08 and then 0.10 give \<open>Zoom 0.4\<close>.\<close>

lemma zooming_eq:
  "zooming = initial\<lparr> status := DETECTING, activeGesture := Some ''ZOOMING'',
                      lastLandmark := Some (pt 0.5 0.5), lastPinchDist := Some 0.08 \<rparr>"
  by (simp add: zooming_def zoomFrame_def eval_simps)

theorem pinch_zoom_delta_witness:
  "length (zoomFrame 0.1) = 2 \<and>
   readHand (zoomFrame 0.1 ! 0) =
     Inr \<lparr> indexTip = pt 0.5 0.5, indexOut = False, middleOut = False, ringOut = False,
           pinkyOut = False, tapDist = 0.3 \<rparr> \<and>
   item (zoomFrame 0.1 ! 1) 8 = Some (pt 0.6 0.5) \<and>
   lastLandmark zooming = Some (pt 0.5 0.5) \<and>
   lastPinchDist zooming = Some 0.08 \<and>
   emitted (processFrame zooming 5032 5032 (Some (zoomFrame 0.1))) = [Zoom 0.4] \<and>
   lastPinchDist (stateOf (processFrame zooming 5032 5032 (Some (zoomFrame 0.1)))) = Some 0.1"
proof -
  let ?f = "\<lparr> indexTip = pt 0.5 0.5, indexOut = False, middleOut = False, ringOut = False,
             pinkyOut = False, tapDist = 0.3 \<rparr>"
  have two: "length (zoomFrame 0.1) = 2"
    by (simp add: zoomFrame_def)
  have f: "readHand (zoomFrame 0.1 ! 0) = Inr ?f"
    by (simp add: zoomFrame_def eval_simps)
  have h2: "item (zoomFrame 0.1 ! 1) 8 = Some (pt 0.6 0.5)"
    by (simp add: zoomFrame_def eval_simps)
  have prev: "lastLandmark zooming = Some (pt 0.5 0.5)"
    by (simp add: zooming_eq)
  have lastDist: "lastPinchDist zooming = Some 0.08"
    by (simp add: zooming_eq)
  have palm: "\<not> isPalm ?f"
    by (simp add: isPalm_def)
  have lock: "\<not> 5032 - (if tapDist ?f < CLICK_THRESHOLD \<and> \<not> isTapped zooming then 5032
                          else lastClickTime zooming) < 400"
    by (simp add: zooming_eq initial_def CLICK_THRESHOLD_def)
  from pinch_zoom_delta [OF two f h2 prev lastDist palm lock]
  have "emitted (processFrame zooming 5032 5032 (Some (zoomFrame 0.1))) = [Zoom 0.4] \<and>
        lastPinchDist (stateOf (processFrame zooming 5032 5032 (Some (zoomFrame 0.1)))) = Some 0.1"
    by (simp add: outcome_simps pt_def hypot_zero_right CLICK_THRESHOLD_def)
  with two f h2 prev lastDist show ?thesis
    by simp
qed

subsection \<open>Convergence of the smoothing\<close>

text \<open>What a frame that does not throw does to \<open>smoothedPos\<close> and \<open>lastLandmark\<close>.\<close>

lemma tipOf_Some:
  assumes "tipOf fr = Some q"
  obtains hands where "detection fr = Some hands" and "hands \<noteq> []" and "8 < length (hands ! 0)"
    and "hands ! 0 ! 8 = q"
proof -
  from assms have ne: "handsOf (detection fr) \<noteq> []"
    by (auto simp: tipOf_def)
  then have det: "detection fr = Some (handsOf (detection fr))"
    by (auto simp: handsOf_def split: option.splits)
  from assms ne have "item (handsOf (detection fr) ! 0) 8 = Some q"
    by (cases "handsOf (detection fr)") (simp_all add: tipOf_def)
  then have "8 < length (handsOf (detection fr) ! 0)" and "handsOf (detection fr) ! 0 ! 8 = q"
    by (simp_all add: item_def split: if_splits)
  with ne det that show thesis
    by blast
qed

lemma frame_smoothing:
  assumes tip: "tipOf fr = Some q"
    and ok: "\<not> thrown (processFrame c (clickClock fr) (treeClock fr) (detection fr))"
    and prev: "lastLandmark c = Some p"
  shows "smoothedPos (stateOf (processFrame c (clickClock fr) (treeClock fr) (detection fr))) =
           smoothedPos (smoothing c q p)"
    and "lastLandmark (stateOf (processFrame c (clickClock fr) (treeClock fr) (detection fr))) = Some q"
proof -
  from tip obtain hands where det: "detection fr = Some hands" and ne: "hands \<noteq> []"
    and q: "hands ! 0 ! 8 = q"
    by (rule tipOf_Some)
  from ok det ne obtain f where f: "readHand (hands ! 0) = Inr f"
    by (cases "readHand (hands ! 0)") (simp_all add: processFrame_unreadable outcome_simps)
  from readHand_indexTip [OF f] q have it: "indexTip f = q"
    by simp
  let ?c1 = "smoothing (c\<lparr> status := DETECTING \<rparr>) (indexTip f) p"
  let ?c2 = "fst (clickLogic ?c1 f (clickClock fr))"
  let ?t = "decisionTree ?c2 f (treeClock fr) hands"
  from ok det have "\<not> thrown ?t"
    by (simp add: tracked_thrown [OF ne f prev])
  then obtain c3 evs where t: "?t = Inr (c3, evs)"
    by (cases ?t) (auto simp: thrown_def)
  from decisionTree_keeps(4) [of ?c2 f "treeClock fr" hands] t
  have "smoothedPos c3 = smoothedPos ?c2"
    by (simp add: outcome_simps)
  also have "\<dots> = smoothedPos (smoothing c q p)"
    by (simp add: clickLogic_keeps it smoothing_def Let_def)
  finally have sp: "smoothedPos c3 = smoothedPos (smoothing c q p)" .
  have r: "processFrame c (clickClock fr) (treeClock fr) (detection fr) =
             Inr (c3\<lparr> lastLandmark := Some (indexTip f) \<rparr>, snd (clickLogic ?c1 f (clickClock fr)) @ evs)"
    unfolding det processFrame_tracked [OF ne f prev] t by simp
  show "smoothedPos (stateOf (processFrame c (clickClock fr) (treeClock fr) (detection fr))) =
           smoothedPos (smoothing c q p)"
    unfolding r by (simp add: outcome_simps sp)
  show "lastLandmark (stateOf (processFrame c (clickClock fr) (treeClock fr) (detection fr))) = Some q"
    unfolding r by (simp add: outcome_simps it)
qed

text \<open>The update of lines 125 to 134 on one coordinate, and its closed form.\<close>

lemma along_smoothing:
  "along a (smoothedPos (smoothing c q p)) =
     smooth (deadzone (along a q - along a p)) (along a (smoothedPos c))"
  by (cases a) (simp_all add: smoothing_def Let_def)

lemma smooth_step:
  "smooth e (e * (1 - (1 - ALPHA) ^ k)) = e * (1 - (1 - ALPHA) ^ Suc k)"
  by (simp add: smooth_def algebra_simps)

lemma run_steady:
  "lastLandmark c = Some p \<Longrightarrow> steady p d fs \<Longrightarrow> \<forall>r \<in> set (run c fs). \<not> thrown r \<Longrightarrow>
   along a (smoothedPos c) = deadzone (along a d) * (1 - (1 - ALPHA) ^ k) \<Longrightarrow>
   along a (smoothedPos (final c fs)) = deadzone (along a d) * (1 - (1 - ALPHA) ^ (k + length fs))"
proof (induction fs arbitrary: c p k)
  case Nil
  then show ?case by (simp add: final_Nil)
next
  case (Cons fr fs)
  let ?q = "\<lparr> px = px p + px d, py = py p + py d \<rparr>"
  let ?r = "processFrame c (clickClock fr) (treeClock fr) (detection fr)"
  from Cons.prems(2) have tip: "tipOf fr = Some ?q" and rest: "steady ?q d fs"
    by simp_all
  from Cons.prems(3) have ok: "\<not> thrown ?r" and oks: "\<forall>r \<in> set (run (stateOf ?r) fs). \<not> thrown r"
    by (simp_all add: Let_def)
  note fs = frame_smoothing [OF tip ok Cons.prems(1)]
  have moved: "along a ?q - along a p = along a d"
    by (cases a) simp_all
  have "along a (smoothedPos (stateOf ?r)) = smooth (deadzone (along a d)) (along a (smoothedPos c))"
    by (simp add: fs(1) along_smoothing moved)
  also have "\<dots> = deadzone (along a d) * (1 - (1 - ALPHA) ^ Suc k)"
    by (simp only: Cons.prems(4) smooth_step)
  finally have "along a (smoothedPos (stateOf ?r)) = deadzone (along a d) * (1 - (1 - ALPHA) ^ Suc k)" .
  from Cons.IH [OF fs(2) rest oks this] show ?case
    by (simp add: final_Cons [OF ok])
qed

lemma steady_take: "steady p d fs \<Longrightarrow> steady p d (take m fs)"
proof (induction fs arbitrary: p m)
  case Nil
  show ?case by simp
next
  case (Cons fr fs)
  then show ?case by (cases m) simp_all
qed

lemma run_take: "set (run c (take m fs)) \<subseteq> set (run c fs)"
proof (induction fs arbitrary: c m)
  case Nil
  show ?case by simp
next
  case (Cons fr fs)
  show ?case
  proof (cases m)
    case 0
    then show ?thesis by simp
  next
    case (Suc m')
    with Cons.IH [of "stateOf (processFrame c (clickClock fr) (treeClock fr) (detection fr))" m']
    show ?thesis by (auto simp: Let_def)
  qed
qed

lemma retention_tendsto: "(\<lambda>n. (1 - ALPHA) ^ n) \<longlonglongrightarrow> 0"
  by (rule LIMSEQ_realpow_zero) (simp_all add: ALPHA_def)

text \<open>
  C8, as the code has it. From a smoothed value of zero, over frames whose index tip moves
  by the same raw displacement \<open>d\<close> (on either coordinate) and that do not throw: when
  \<open>\<bar>d\<bar>\<close> is at least \<open>DEADZONE\<close>, the distance of the smoothed value to \<open>d\<close> after \<open>n\<close>
  frames is \<open>\<bar>d\<bar> * (1 - ALPHA) ^ n\<close>, which tends to zero, it is never larger than after
  fewer frames, and the smoothed value keeps the sign of \<open>d\<close> and never exceeds it in
  magnitude; when \<open>\<bar>d\<bar>\<close> is below \<open>DEADZONE\<close>, the displacement is clamped to zero before
  the update and the smoothed value stays zero.
\<close>

theorem smoothing_converges:
  assumes prev: "lastLandmark c = Some p"
    and zero: "smoothedPos c = \<lparr> px = 0, py = 0 \<rparr>"
    and steady: "steady p d fs"
    and ok: "\<forall>r \<in> set (run c fs). \<not> thrown r"
  shows "(DEADZONE \<le> \<bar>along a d\<bar> \<longrightarrow>
            \<bar>along a d - along a (smoothedPos (final c fs))\<bar> = \<bar>along a d\<bar> * (1 - ALPHA) ^ length fs \<and>
            \<bar>along a d - along a (smoothedPos (final c fs))\<bar>
              \<le> \<bar>along a d - along a (smoothedPos (final c (take m fs)))\<bar> \<and>
            \<bar>along a (smoothedPos (final c fs))\<bar> \<le> \<bar>along a d\<bar> \<and>
            0 \<le> along a d * along a (smoothedPos (final c fs))) \<and>
         (\<bar>along a d\<bar> < DEADZONE \<longrightarrow> along a (smoothedPos (final c fs)) = 0) \<and>
         (\<lambda>n. (1 - ALPHA) ^ n) \<longlonglongrightarrow> 0"
proof -
  let ?e = "along a d"
  have start: "along a (smoothedPos c) = deadzone ?e * (1 - (1 - ALPHA) ^ 0)"
    using zero by (cases a) simp_all
  from run_steady [OF prev steady ok start]
  have all: "along a (smoothedPos (final c fs)) = deadzone ?e * (1 - (1 - ALPHA) ^ length fs)"
    by simp
  have ok': "\<forall>r \<in> set (run c (take m fs)). \<not> thrown r"
    using ok run_take [of c m fs] by blast
  from run_steady [OF prev steady_take [OF steady] ok' start]
  have part: "along a (smoothedPos (final c (take m fs))) =
                deadzone ?e * (1 - (1 - ALPHA) ^ length (take m fs))"
    by simp
  have q: "0 \<le> 1 - ALPHA" "1 - ALPHA \<le> 1"
    by (simp_all add: ALPHA_def)
  have q0: "0 \<le> (1 - ALPHA) ^ n" and q1: "(1 - ALPHA) ^ n \<le> 1" for n
    using q by (simp_all add: power_le_one)
  have live: "\<bar>?e - along a (smoothedPos (final c fs))\<bar> = \<bar>?e\<bar> * (1 - ALPHA) ^ length fs \<and>
      \<bar>?e - along a (smoothedPos (final c fs))\<bar> \<le> \<bar>?e - along a (smoothedPos (final c (take m fs)))\<bar> \<and>
      \<bar>along a (smoothedPos (final c fs))\<bar> \<le> \<bar>?e\<bar> \<and>
      0 \<le> ?e * along a (smoothedPos (final c fs))"
    if "DEADZONE \<le> \<bar>?e\<bar>"
  proof -
    from that have dz: "deadzone ?e = ?e"
      by (simp add: deadzone_def)
    have gap: "?e - ?e * (1 - (1 - ALPHA) ^ n) = ?e * (1 - ALPHA) ^ n" for n
      by (simp add: algebra_simps)
    have g1: "\<bar>?e - along a (smoothedPos (final c fs))\<bar> = \<bar>?e\<bar> * (1 - ALPHA) ^ length fs"
      unfolding all dz gap using q0 by (simp add: abs_mult)
    have g2: "\<bar>?e - along a (smoothedPos (final c (take m fs)))\<bar> =
                \<bar>?e\<bar> * (1 - ALPHA) ^ length (take m fs)"
      unfolding part dz gap using q0 by (simp add: abs_mult)
    have "(1 - ALPHA) ^ length fs \<le> (1 - ALPHA) ^ length (take m fs)"
      using q by (intro power_decreasing) simp_all
    then have mono: "\<bar>?e\<bar> * (1 - ALPHA) ^ length fs \<le> \<bar>?e\<bar> * (1 - ALPHA) ^ length (take m fs)"
      by (intro mult_left_mono) simp_all
    have "\<bar>along a (smoothedPos (final c fs))\<bar> = \<bar>?e\<bar> * (1 - (1 - ALPHA) ^ length fs)"
      unfolding all dz using q1 [of "length fs"] by (simp add: abs_mult)
    also have "\<dots> \<le> \<bar>?e\<bar>"
      using q0 [of "length fs"] by (simp add: mult_left_le)
    finally have bound: "\<bar>along a (smoothedPos (final c fs))\<bar> \<le> \<bar>?e\<bar>" .
    have val: "along a (smoothedPos (final c fs)) = ?e * (1 - (1 - ALPHA) ^ length fs)"
      using all dz by simp
    have "0 \<le> (?e * ?e) * (1 - (1 - ALPHA) ^ length fs)"
      using q1 [of "length fs"] by (intro mult_nonneg_nonneg zero_le_square) simp
    then have sign: "0 \<le> ?e * along a (smoothedPos (final c fs))"
      unfolding val by (simp only: mult.assoc)
    from g1 g2 mono bound sign show ?thesis
      by simp
  qed
  have clamped: "along a (smoothedPos (final c fs)) = 0" if "\<bar>?e\<bar> < DEADZONE"
    using that by (simp add: all deadzone_def)
  from live clamped retention_tendsto show ?thesis
    by blast
qed

lemma acquired_eq:
  "acquired = initial\<lparr> status := DETECTING, lastLandmark := Some (pt 0.6 0.5) \<rparr>"
  by (simp add: acquired_def pointing_def eval_simps)

lemmas steady_simps = steady.simps tipOf_def handsOf_def frameAt_def pointing_def sampleHand_def
  pt_def item_Cons_0 item_Cons_Suc item_Cons_numeral

theorem smoothing_converges_witness:
  "lastLandmark acquired = Some (pt 0.6 0.5) \<and>
   smoothedPos acquired = \<lparr> px = 0, py = 0 \<rparr> \<and>
   steady (pt 0.6 0.5) (pt 0.1 0) sweepFrames \<and>
   map thrown (run acquired sweepFrames) = [False, False] \<and>
   DEADZONE \<le> \<bar>along Horizontal (pt 0.1 0)\<bar> \<and>
   \<bar>along Horizontal (pt 0.1 0) - along Horizontal (smoothedPos (final acquired sweepFrames))\<bar> = 0.036 \<and>
   steady (pt 0.6 0.5) (pt 0.002 0) driftFrames \<and>
   map thrown (run acquired driftFrames) = [False, False, False] \<and>
   \<bar>along Horizontal (pt 0.002 0)\<bar> < DEADZONE \<and>
   along Horizontal (smoothedPos (final acquired driftFrames)) = 0"
proof -
  have prev: "lastLandmark acquired = Some (pt 0.6 0.5)"
    and zero: "smoothedPos acquired = \<lparr> px = 0, py = 0 \<rparr>"
    by (simp_all add: acquired_eq initial_def)
  have sweep: "steady (pt 0.6 0.5) (pt 0.1 0) sweepFrames"
    by (simp add: sweepFrames_def steady_simps)
  have drift: "steady (pt 0.6 0.5) (pt 0.002 0) driftFrames"
    by (simp add: driftFrames_def steady_simps)
  have run1: "map thrown (run acquired sweepFrames) = [False, False]"
    by (simp add: acquired_eq sweepFrames_def pointing_def eval_simps)
  have run2: "map thrown (run acquired driftFrames) = [False, False, False]"
    by (simp add: acquired_eq driftFrames_def pointing_def eval_simps)
  have "thrown r \<in> set (map thrown (run acquired sweepFrames))"
    if "r \<in> set (run acquired sweepFrames)" for r
    using that by simp
  then have ok1: "\<forall>r \<in> set (run acquired sweepFrames). \<not> thrown r"
    unfolding run1 by auto
  have "thrown r \<in> set (map thrown (run acquired driftFrames))"
    if "r \<in> set (run acquired driftFrames)" for r
    using that by simp
  then have ok2: "\<forall>r \<in> set (run acquired driftFrames). \<not> thrown r"
    unfolding run2 by auto
  have live: "DEADZONE \<le> \<bar>along Horizontal (pt 0.1 0)\<bar>"
    and dead: "\<bar>along Horizontal (pt 0.002 0)\<bar> < DEADZONE"
    by (simp_all add: pt_def DEADZONE_def)
  have len: "length sweepFrames = 2"
    by (simp add: sweepFrames_def)
  from smoothing_converges [OF prev zero sweep ok1, of Horizontal 0]
    smoothing_converges [OF prev zero drift ok2, of Horizontal 0]
    prev zero sweep drift run1 run2 live dead len
  show ?thesis
    by (simp add: pt_def ALPHA_def power2_eq_square)
qed

text \<open>
  A raw displacement of 0.002 per frame is inside the deadzone: after three such frames the
  smoothed value is still zero, where the update fed with 0.002 would have reached 0.0008
  after the first.
\<close>

theorem smoothing_converges_counterexample:
  "steady (pt 0.6 0.5) (pt 0.002 0) driftFrames \<and>
   smoothedPos (final initial (frameAt 5000 [pointing 0.6] # driftFrames)) = \<lparr> px = 0, py = 0 \<rparr> \<and>
   smooth 0.002 0 = 0.0008"
  by (simp add: driftFrames_def steady_simps eval_simps)

subsection \<open>The first frame of a hand\<close>

text \<open>
  C9. On a frame with a detected hand and no previous fingertip position, nothing is
  emitted, whatever the landmarks are; when the frame does not throw, the step only sets
  the status, records the index tip in \<open>lastLandmark\<close> and clears \<open>lastPinchDist\<close>: the
  smoothing, the click latch, the timestamps and the decision tree are not touched.
\<close>

theorem first_frame_is_skipped:
  assumes "lastLandmark c = None" and "hands \<noteq> []"
  shows "emitted (processFrame c t1 t2 (Some hands)) = [] \<and>
         (thrown (processFrame c t1 t2 (Some hands)) \<or>
          stateOf (processFrame c t1 t2 (Some hands)) =
            c\<lparr> status := DETECTING, lastPinchDist := None,
               lastLandmark := Some (hands ! 0 ! 8) \<rparr>)"
proof (cases "readHand (hands ! 0)")
  case (Inl e)
  with assms show ?thesis
    by (simp add: processFrame_unreadable outcome_simps)
next
  case (Inr f)
  with assms show ?thesis
    by (simp add: processFrame_first outcome_simps readHand_indexTip)
qed

theorem first_frame_is_skipped_witness:
  "lastLandmark initial = None \<and> [sampleHand 0.55 0.6 0.6 0.6 0.6] \<noteq> [] \<and>
   emitted (processFrame initial 5000 5000 (Some [sampleHand 0.55 0.6 0.6 0.6 0.6])) = [] \<and>
   \<not> thrown (processFrame initial 5000 5000 (Some [sampleHand 0.55 0.6 0.6 0.6 0.6])) \<and>
   stateOf (processFrame initial 5000 5000 (Some [sampleHand 0.55 0.6 0.6 0.6 0.6])) =
     initial\<lparr> status := DETECTING, lastPinchDist := None, lastLandmark := Some (pt 0.6 0.5) \<rparr>"
proof -
  have a: "lastLandmark initial = None"
    by (simp add: initial_def)
  have b: "\<not> thrown (processFrame initial 5000 5000 (Some [sampleHand 0.55 0.6 0.6 0.6 0.6]))"
    by (simp add: eval_simps)
  have c: "[sampleHand 0.55 0.6 0.6 0.6 0.6] ! 0 ! 8 = pt 0.6 0.5"
    by (simp add: sampleHand_def)
  from first_frame_is_skipped [OF a, of "[sampleHand 0.55 0.6 0.6 0.6 0.6]" 5000 5000] a b c
  show ?thesis by simp
qed

subsection \<open>What is read of the second hand\<close>

lemma pinchZoom_cong:
  assumes "item (hs1 ! 0) 8 = item (hs2 ! 0) 8" and "item (hs1 ! 1) 8 = item (hs2 ! 1) 8"
  shows "pinchZoom c hs1 = pinchZoom c hs2"
  unfolding pinchZoom_def assms by (rule refl)

lemma decisionTree_cong:
  "length hs1 = length hs2 \<Longrightarrow> (length hs1 = 2 \<Longrightarrow> pinchZoom c hs1 = pinchZoom c hs2) \<Longrightarrow>
   decisionTree c f t hs1 = decisionTree c f t hs2"
  by (simp add: decisionTree_def Let_def)

lemma track_cong:
  assumes "length hs1 = length hs2"
    and "length hs1 = 2 \<Longrightarrow> item (hs1 ! 0) 8 = item (hs2 ! 0) 8 \<and> item (hs1 ! 1) 8 = item (hs2 ! 1) 8"
  shows "track c f t1 t2 hs1 = track c f t1 t2 hs2"
proof -
  have "decisionTree c' f t2 hs1 = decisionTree c' f t2 hs2" for c'
    using assms by (intro decisionTree_cong pinchZoom_cong) simp_all
  then show ?thesis
    by (simp add: track_def Let_def split: option.splits)
qed

text \<open>
  C10. Two frames with the same number of hands, the same first 21 landmarks of the first
  hand and the same landmark 8 of the second hand give the same outcome from the same
  state and clock: the same gestures, the same refs, the same exception if any.
\<close>

theorem second_hand_only_index_tip:
  assumes count: "length (handsOf r1) = length (handsOf r2)"
    and first: "map_option (take 21) (item (handsOf r1) 0) = map_option (take 21) (item (handsOf r2) 0)"
    and second: "Option.bind (item (handsOf r1) 1) (\<lambda>h. item h 8) =
                 Option.bind (item (handsOf r2) 1) (\<lambda>h. item h 8)"
  shows "processFrame c t1 t2 r1 = processFrame c t1 t2 r2"
proof (cases "handsOf r1 = []")
  case True
  with count have "handsOf r2 = []" by simp
  with True have "processFrame c t1 t2 r1 = Inr (trackingLost c, [])"
    and "processFrame c t1 t2 r2 = Inr (trackingLost c, [])"
    by (auto simp: handsOf_def processFrame_None processFrame_Nil split: option.splits)
  then show ?thesis by simp
next
  case False
  with count have ne2: "handsOf r2 \<noteq> []" by auto
  from False have r1: "r1 = Some (handsOf r1)"
    by (auto simp: handsOf_def split: option.splits)
  from ne2 have r2: "r2 = Some (handsOf r2)"
    by (auto simp: handsOf_def split: option.splits)
  let ?hs1 = "handsOf r1" and ?hs2 = "handsOf r2"
  from first False ne2 have tk: "take 21 (?hs1 ! 0) = take 21 (?hs2 ! 0)"
    by (simp add: item_def)
  have "readHand (?hs1 ! 0) = readHand (take 21 (?hs1 ! 0))"
    by (simp add: readHand_take)
  also have "\<dots> = readHand (?hs2 ! 0)"
    by (simp add: tk readHand_take)
  finally have rd: "readHand (?hs1 ! 0) = readHand (?hs2 ! 0)" .
  have "item (?hs1 ! 0) 8 = item (take 21 (?hs1 ! 0)) 8"
    by (simp add: item_take)
  also have "\<dots> = item (?hs2 ! 0) 8"
    by (simp add: tk item_take)
  finally have i0: "item (?hs1 ! 0) 8 = item (?hs2 ! 0) 8" .
  have i1: "item (?hs1 ! 1) 8 = item (?hs2 ! 1) 8" if "length ?hs1 = 2"
    using second that count by (simp add: item_def)
  have tr: "track c' f t1 t2 ?hs1 = track c' f t1 t2 ?hs2" for c' f
    using count i0 i1 by (intro track_cong) simp_all
  have "processFrame c t1 t2 (Some ?hs1) = processFrame c t1 t2 (Some ?hs2)"
    using False ne2 rd tr by (simp add: processFrame_def Let_def split: sum.splits)
  with r1 r2 show ?thesis by simp
qed

theorem second_hand_only_index_tip_witness:
  "length (handsOf (Some [sampleHand 0.2 0.5 0.5 0.5 0.5, sampleHand 0.2 0.6 0.5 0.5 0.5])) =
   length (handsOf (Some [sampleHand 0.2 0.5 0.5 0.5 0.5, sampleHand 0.9 0.6 0.7 0.8 0.9])) \<and>
   processFrame zooming 5032 5032 (Some [sampleHand 0.2 0.5 0.5 0.5 0.5, sampleHand 0.2 0.6 0.5 0.5 0.5]) =
   processFrame zooming 5032 5032 (Some [sampleHand 0.2 0.5 0.5 0.5 0.5, sampleHand 0.9 0.6 0.7 0.8 0.9])"
  using second_hand_only_index_tip [of
      "Some [sampleHand 0.2 0.5 0.5 0.5 0.5, sampleHand 0.2 0.6 0.5 0.5 0.5]"
      "Some [sampleHand 0.2 0.5 0.5 0.5 0.5, sampleHand 0.9 0.6 0.7 0.8 0.9]" zooming 5032 5032]
  by (simp add: handsOf_def item_Cons_0 item_Cons_Suc item_Cons_numeral sampleHand_def)

end
